theory Spec2Isabelle
  imports Main "HOL-Library.AList"
begin

section \<open>Puzzle definition and grid model (grid.js)\<close>

text \<open>
  Conventions of the embedding.
  \<^item> Coordinates are integers, as in the source: \<open>activeRow\<close> and \<open>activeCol\<close> start at
    \<open>-1\<close>, and the public accessors are called with arbitrary numbers.
  \<^item> A JavaScript array read \<open>xs[i]\<close> is \<open>js_index xs i\<close>: \<open>None\<close> stands for
    \<open>undefined\<close>. A property read on \<open>undefined\<close> raises \<open>TypeError\<close>; every such
    place of the source is an \<open>Inl TypeError\<close> branch of the model.
  \<^item> Strings are lists of characters whose code is the UTF-16 code unit; the keyboard
    handler only accepts code units up to \<open>0xFF\<close>.
  \<^item> The DOM presentation (class lists, focus, highlight marks) is never read back by the
    logic and is left out; a cell keeps its \<open>input\<close> element (value and readOnly flag) and
    its number. \<open>render\<close> creates an input exactly for the non-black cells, so
    \<open>isBlack\<close> is derived from \<open>input\<close>.
\<close>

datatype error = TypeError | SyntaxError | Diverges

datatype direction = Across | Down

text \<open>A cell of \<open>puzzle[r][c]\<close>: a clue number, a string (\<open>'#'\<close> is the block), or
  anything else (including \<open>undefined\<close> for a short row).\<close>

datatype cellval = Num nat | Str string | Other

type_synonym coord = "int \<times> int"

record puzzleData =
  level :: string
  date :: string
  height :: nat
  width :: nat
  puzzle :: "cellval list list"
  solution :: "string list list"
  cluesAcross :: "(nat \<times> string) list"
  cluesDown :: "(nat \<times> string) list"

record inputEl =
  val :: string
  readOnly :: bool

record cell =
  input :: "inputEl option"
  number :: "nat option"

record word =
  wid :: nat
  wnumber :: nat
  wdirection :: direction
  wcells :: "coord list"
  wclue :: string

record cw =
  across :: "nat option"
  down :: "nat option"

record grid =
  cells :: "cell list list"
  words :: "word list"
  cellToWords :: "cw list list"
  rows :: nat
  cols :: nat
  activeRow :: int
  activeCol :: int
  activeDirection :: direction

definition js_index :: "'a list \<Rightarrow> int \<Rightarrow> 'a option" where
  "js_index xs i = (if 0 \<le> i \<and> i < int (length xs) then Some (xs ! nat i) else None)"

definition isBlack :: "cell \<Rightarrow> bool" where
  "isBlack cl = (input cl = None)"

definition flip :: "direction \<Rightarrow> direction" where
  "flip d = (if d = Across then Down else Across)"

definition cw_get :: "cw \<Rightarrow> direction \<Rightarrow> nat option" where
  "cw_get e d = (case d of Across \<Rightarrow> across e | Down \<Rightarrow> down e)"

definition cw_set :: "direction \<Rightarrow> nat \<Rightarrow> cw \<Rightarrow> cw" where
  "cw_set d i e = (case d of Across \<Rightarrow> e\<lparr>across := Some i\<rparr> | Down \<Rightarrow> e\<lparr>down := Some i\<rparr>)"

subsection \<open>buildWords\<close>

text \<open>\<open>puzzle[r][c]\<close> for \<open>r < rows\<close>, \<open>c < cols\<close>, once the rows exist (see \<open>createGrid\<close>).\<close>

definition pz :: "puzzleData \<Rightarrow> nat \<Rightarrow> nat \<Rightarrow> cellval" where
  "pz pd r c =
     (if r < length (puzzle pd) \<and> c < length (puzzle pd ! r) then puzzle pd ! r ! c else Other)"

definition isPlayable :: "puzzleData \<Rightarrow> int \<Rightarrow> int \<Rightarrow> bool" where
  "isPlayable pd r c =
     (if r < 0 \<or> r \<ge> int (height pd) \<or> c < 0 \<or> c \<ge> int (width pd) then False
      else pz pd (nat r) (nat c) \<noteq> Str ''#'')"

definition all_coords :: "nat \<Rightarrow> nat \<Rightarrow> (nat \<times> nat) list" where
  "all_coords nr nc = concat (map (\<lambda>r. map (\<lambda>c. (r, c)) [0..<nc]) [0..<nr])"

text \<open>The first loop of \<open>buildWords\<close>: row-major, a later cell with the same number
  overwrites an earlier one.\<close>

definition numberToPos :: "puzzleData \<Rightarrow> nat \<Rightarrow> coord option" where
  "numberToPos pd =
     fold (\<lambda>(r, c) m. case pz pd r c of Num v \<Rightarrow> m(v \<mapsto> (int r, int c)) | _ \<Rightarrow> m)
       (all_coords (height pd) (width pd)) Map.empty"

text \<open>The two \<open>while (isPlayable(..))\<close> loops: one step right, or one step down.\<close>

definition advance :: "direction \<Rightarrow> coord \<Rightarrow> coord" where
  "advance d p = (case d of Across \<Rightarrow> (fst p, snd p + 1) | Down \<Rightarrow> (fst p + 1, snd p))"

function walk :: "puzzleData \<Rightarrow> direction \<Rightarrow> coord \<Rightarrow> coord list" where
  "walk pd d p =
     (if isPlayable pd (fst p) (snd p) then p # walk pd d (advance d p) else [])"
  by pat_completeness auto
termination
  by (relation "measure (\<lambda>(pd, d, p). nat (int (height pd) - fst p) + nat (int (width pd) - snd p))")
     (auto simp: isPlayable_def advance_def split: direction.splits if_splits)

definition set_cw :: "direction \<Rightarrow> nat \<Rightarrow> coord \<Rightarrow> cw list list \<Rightarrow> cw list list" where
  "set_cw d i p m =
     m[nat (fst p) := (m ! nat (fst p))[nat (snd p) := cw_set d i (m ! nat (fst p) ! nat (snd p))]]"

text \<open>One iteration of \<open>for (const [num, clue] of clues.Across)\<close> (or \<open>clues.Down\<close>).\<close>

definition addWord ::
  "puzzleData \<Rightarrow> direction \<Rightarrow> nat \<times> string \<Rightarrow> word list \<times> cw list list \<Rightarrow> word list \<times> cw list list" where
  "addWord pd d e acc =
     (case numberToPos pd (fst e) of
        None \<Rightarrow> acc
      | Some pos \<Rightarrow>
          let wordCells = walk pd d pos; i = length (fst acc) in
          (fst acc @ [\<lparr>wid = i, wnumber = fst e, wdirection = d, wcells = wordCells, wclue = snd e\<rparr>],
           fold (set_cw d i) wordCells (snd acc)))"

definition buildWords :: "puzzleData \<Rightarrow> word list \<times> cw list list" where
  "buildWords pd =
     fold (addWord pd Down) (cluesDown pd)
       (fold (addWord pd Across) (cluesAcross pd)
          ([], replicate (height pd) (replicate (width pd) \<lparr>across = None, down = None\<rparr>)))"

definition render :: "puzzleData \<Rightarrow> cell list list" where
  "render pd =
     map (\<lambda>r. map (\<lambda>c.
        \<lparr>input = (if pz pd r c = Str ''#'' then None else Some \<lparr>val = [], readOnly = False\<rparr>),
         number = (case pz pd r c of Num n \<Rightarrow> Some n | _ \<Rightarrow> None)\<rparr>) [0..<width pd]) [0..<height pd]"

text \<open>\<open>createGrid\<close>. The only failure of the construction is the read \<open>puzzle[r][c]\<close> of a
  row that does not exist; the first loop of \<open>buildWords\<close> visits every \<open>r < rows\<close> when
  \<open>cols > 0\<close>, so the failure is decided before anything else is built.\<close>

definition newGrid :: "puzzleData \<Rightarrow> grid" where
  "newGrid pd =
     \<lparr>cells = render pd, words = fst (buildWords pd), cellToWords = snd (buildWords pd),
      rows = height pd, cols = width pd,
      activeRow = -1, activeCol = -1, activeDirection = Across\<rparr>"

definition createGrid :: "puzzleData \<Rightarrow> error + grid" where
  "createGrid pd =
     (if 0 < width pd \<and> length (puzzle pd) < height pd then Inl TypeError
      else Inr (newGrid pd))"

subsection \<open>Cell access\<close>

definition getCell :: "grid \<Rightarrow> int \<Rightarrow> int \<Rightarrow> cell option" where
  "getCell g r c = (case js_index (cells g) r of None \<Rightarrow> None | Some rw \<Rightarrow> js_index rw c)"

definition cellToWordsAt :: "grid \<Rightarrow> int \<Rightarrow> int \<Rightarrow> cw option" where
  "cellToWordsAt g r c = (case js_index (cellToWords g) r of None \<Rightarrow> None | Some rw \<Rightarrow> js_index rw c)"

definition set_cell :: "grid \<Rightarrow> int \<Rightarrow> int \<Rightarrow> cell \<Rightarrow> grid" where
  "set_cell g r c cl = g\<lparr>cells := (cells g)[nat r := (cells g ! nat r)[nat c := cl]]\<rparr>"

definition setLetter :: "grid \<Rightarrow> int \<Rightarrow> int \<Rightarrow> string \<Rightarrow> grid" where
  "setLetter g r c letter =
     (case getCell g r c of
        None \<Rightarrow> g
      | Some cl \<Rightarrow>
          (case input cl of
             None \<Rightarrow> g
           | Some i \<Rightarrow> set_cell g r c (cl\<lparr>input := Some (i\<lparr>val := letter\<rparr>)\<rparr>)))"

definition getLetter :: "grid \<Rightarrow> int \<Rightarrow> int \<Rightarrow> string" where
  "getLetter g r c =
     (case getCell g r c of
        None \<Rightarrow> []
      | Some cl \<Rightarrow> (case input cl of None \<Rightarrow> [] | Some i \<Rightarrow> val i))"

definition lockCell :: "grid \<Rightarrow> int \<Rightarrow> int \<Rightarrow> grid" where
  "lockCell g r c =
     (case getCell g r c of
        None \<Rightarrow> g
      | Some cl \<Rightarrow>
          (case input cl of
             None \<Rightarrow> g
           | Some i \<Rightarrow> set_cell g r c (cl\<lparr>input := Some (i\<lparr>readOnly := True\<rparr>)\<rparr>)))"

text \<open>\<open>cell.input?.readOnly\<close> as a condition: false for a missing cell or a black one.\<close>

definition isReadOnly :: "grid \<Rightarrow> int \<Rightarrow> int \<Rightarrow> bool" where
  "isReadOnly g r c =
     (case getCell g r c of
        None \<Rightarrow> False
      | Some cl \<Rightarrow> (case input cl of None \<Rightarrow> False | Some i \<Rightarrow> readOnly i))"

subsection \<open>Navigation\<close>

definition setActiveCell :: "grid \<Rightarrow> int \<Rightarrow> int \<Rightarrow> direction option \<Rightarrow> error + grid" where
  "setActiveCell g r c dir =
     (let d1 = (case dir of Some d \<Rightarrow> d | None \<Rightarrow> activeDirection g);
          d2 = (case cellToWordsAt g r c of
                  None \<Rightarrow> d1
                | Some e \<Rightarrow> if cw_get e d1 = None then flip d1 else d1)
      in case getCell g r c of
           None \<Rightarrow> Inl TypeError
         | Some cl \<Rightarrow> Inr (g\<lparr>activeRow := r, activeCol := c, activeDirection := d2\<rparr>))"

definition getActiveWord :: "grid \<Rightarrow> word option" where
  "getActiveWord g =
     (if activeRow g < 0 then None
      else case cellToWordsAt g (activeRow g) (activeCol g) of
             None \<Rightarrow> None
           | Some e \<Rightarrow>
               (case cw_get e (activeDirection g) of
                  None \<Rightarrow> None
                | Some i \<Rightarrow> js_index (words g) (int i)))"

definition toggleDirection :: "grid \<Rightarrow> error + grid" where
  "toggleDirection g =
     (let other = flip (activeDirection g) in
      case cellToWordsAt g (activeRow g) (activeCol g) of
        None \<Rightarrow> Inr g
      | Some e \<Rightarrow>
          if cw_get e other \<noteq> None
          then setActiveCell (g\<lparr>activeDirection := other\<rparr>) (activeRow g) (activeCol g) None
          else Inr g)"

fun findIndex :: "('a \<Rightarrow> bool) \<Rightarrow> 'a list \<Rightarrow> int" where
  "findIndex P [] = -1"
| "findIndex P (x # xs) =
     (if P x then 0 else (let i = findIndex P xs in if i < 0 then -1 else i + 1))"

definition moveToNextCell :: "grid \<Rightarrow> error + grid" where
  "moveToNextCell g =
     (case getActiveWord g of
        None \<Rightarrow> Inr g
      | Some w \<Rightarrow>
          let i = findIndex (\<lambda>p. fst p = activeRow g \<and> snd p = activeCol g) (wcells w) in
          if i < int (length (wcells w)) - 1
          then (case js_index (wcells w) (i + 1) of
                  None \<Rightarrow> Inl TypeError
                | Some p \<Rightarrow> setActiveCell g (fst p) (snd p) None)
          else Inr g)"

definition moveToPrevCell :: "grid \<Rightarrow> error + grid" where
  "moveToPrevCell g =
     (case getActiveWord g of
        None \<Rightarrow> Inr g
      | Some w \<Rightarrow>
          let i = findIndex (\<lambda>p. fst p = activeRow g \<and> snd p = activeCol g) (wcells w) in
          if i > 0
          then (case js_index (wcells w) (i - 1) of
                  None \<Rightarrow> Inl TypeError
                | Some p \<Rightarrow> setActiveCell g (fst p) (snd p) None)
          else Inr g)"

text \<open>\<open>cells.find(c => !cells[c.row][c.col].input?.value)\<close>: the first cell without a
  letter; the read raises on a coordinate outside the grid.\<close>

fun firstEmpty :: "grid \<Rightarrow> coord list \<Rightarrow> error + coord option" where
  "firstEmpty g [] = Inr None"
| "firstEmpty g (p # ps) =
     (case getCell g (fst p) (snd p) of
        None \<Rightarrow> Inl TypeError
      | Some cl \<Rightarrow>
          if (case input cl of None \<Rightarrow> True | Some i \<Rightarrow> val i = [])
          then Inr (Some p) else firstEmpty g ps)"

definition selectTarget :: "grid \<Rightarrow> word \<Rightarrow> error + grid" where
  "selectTarget g w =
     (case firstEmpty g (wcells w) of
        Inl e \<Rightarrow> Inl e
      | Inr fe \<Rightarrow>
          (case (case fe of Some p \<Rightarrow> Some p | None \<Rightarrow> js_index (wcells w) 0) of
             None \<Rightarrow> Inl TypeError
           | Some p \<Rightarrow> setActiveCell g (fst p) (snd p) (Some (wdirection w))))"

definition moveToNextWord :: "grid \<Rightarrow> bool \<Rightarrow> error + grid" where
  "moveToNextWord g reverse =
     (case (case cellToWordsAt g (activeRow g) (activeCol g) of
              None \<Rightarrow> None | Some e \<Rightarrow> cw_get e (activeDirection g)) of
        None \<Rightarrow> Inr g
      | Some currentWordIdx \<Rightarrow>
          let sameDir = filter (\<lambda>w. wdirection w = activeDirection g) (words g);
              curPos = findIndex (\<lambda>w. wid w = currentWordIdx) sameDir;
              nextPos = (if reverse
                         then (if curPos > 0 then curPos - 1 else int (length sameDir) - 1)
                         else (if curPos < int (length sameDir) - 1 then curPos + 1 else 0))
          in (case js_index sameDir nextPos of
                None \<Rightarrow> Inr g
              | Some nextWord \<Rightarrow>
                  if length (wcells nextWord) > 0 then selectTarget g nextWord else Inr g))"

text \<open>The loop of \<open>moveArrow\<close>. With a zero step on a black cell the source never leaves
  the loop: the model returns \<open>Diverges\<close> there. The key handler only passes the four unit
  steps.\<close>

function moveArrowLoop :: "grid \<Rightarrow> int \<Rightarrow> int \<Rightarrow> int \<Rightarrow> int \<Rightarrow> error + grid" where
  "moveArrowLoop g dr dc r c =
     (if r \<ge> 0 \<and> r < int (rows g) \<and> c \<ge> 0 \<and> c < int (cols g) then
        (case getCell g r c of
           None \<Rightarrow> Inl TypeError
         | Some cl \<Rightarrow>
             if \<not> isBlack cl then setActiveCell g r c None
             else if dr = 0 \<and> dc = 0 then Inl Diverges
             else moveArrowLoop g dr dc (r + dr) (c + dc))
      else Inr g)"
  by pat_completeness auto
termination
  by (relation "measure (\<lambda>(g, dr, dc, r, c).
        if dr > 0 then nat (int (rows g) - r) else if dr < 0 then nat (r + 1)
        else if dc > 0 then nat (int (cols g) - c) else nat (c + 1))")
     auto

definition moveArrow :: "grid \<Rightarrow> int \<Rightarrow> int \<Rightarrow> error + grid" where
  "moveArrow g dr dc = moveArrowLoop g dr dc (activeRow g + dr) (activeCol g + dc)"

definition handleCellFocus :: "grid \<Rightarrow> int \<Rightarrow> int \<Rightarrow> error + grid" where
  "handleCellFocus g r c =
     (if activeRow g \<noteq> r \<or> activeCol g \<noteq> c then setActiveCell g r c None else Inr g)"

definition handleClick :: "grid \<Rightarrow> int \<Rightarrow> int \<Rightarrow> error + grid" where
  "handleClick g r c =
     (if activeRow g = r \<and> activeCol g = c then toggleDirection g else Inr g)"

text \<open>\<open>focusFirstCell\<close>: the first non-black cell in row-major order.\<close>

definition focusFirstCell :: "grid \<Rightarrow> error + grid" where
  "focusFirstCell g =
     (case find (\<lambda>p. case getCell g (int (fst p)) (int (snd p)) of
                          None \<Rightarrow> False | Some cl \<Rightarrow> \<not> isBlack cl)
             (all_coords (rows g) (cols g)) of
        None \<Rightarrow> Inr g
      | Some p \<Rightarrow> setActiveCell g (int (fst p)) (int (snd p)) (Some Across))"

definition selectWord :: "grid \<Rightarrow> int \<Rightarrow> error + grid" where
  "selectWord g wordIdx =
     (case js_index (words g) wordIdx of None \<Rightarrow> Inr g | Some w \<Rightarrow> selectTarget g w)"

section \<open>Persistence (storage.js)\<close>

text \<open>
  \<open>localStorage\<close> holds text. A stored text is modelled by what \<open>JSON.parse\<close> makes of it:
  \<open>Json v\<close> is a text written by \<open>JSON.stringify v\<close> (parsing it gives \<open>v\<close> back), and
  \<open>Garbage s\<close> is a text \<open>s\<close> that is not valid JSON, on which \<open>JSON.parse\<close> raises
  \<open>SyntaxError\<close>. The empty text is \<open>Garbage []\<close>. Progress blobs are kept under their
  key \<open>crosswords_progress_<level>_<date>\<close>, the statistics blob under \<open>crosswords_stats\<close>.
  Calendar dates (\<open>today\<close>, \<open>lastPlayed\<close>) are day numbers: the date text
  \<open>YYYY-MM-DD\<close> of day \<open>d\<close> is parsed by \<open>new Date\<close> to \<open>d * 86400000\<close> milliseconds.
\<close>

datatype 'a blob = Json 'a | Garbage string

record state =
  letters :: "(coord \<times> string) list"
  revealed :: "coord set"
  correctWords :: "nat list"
  startTime :: "int option"
  elapsed :: nat
  completed :: bool
  completedAt :: "int option"
  hintsUsed :: nat

record historyEntry =
  h_date :: string
  h_level :: string
  h_time :: nat
  h_hints :: nat
  h_noHints :: bool

record stats =
  totalCompleted :: nat
  totalTime :: nat
  bestTime :: "(string \<times> nat) list"
  streak_current :: int
  streak_best :: int
  history :: "historyEntry list"
  lastPlayed :: "int option"

record localStorage =
  progressItems :: "string \<Rightarrow> state blob option"
  statsItem :: "stats blob option"

definition progressKey :: "string \<Rightarrow> string \<Rightarrow> string" where
  "progressKey lv dt = ''crosswords_progress_'' @ lv @ ''_'' @ dt"

definition saveProgress :: "localStorage \<Rightarrow> string \<Rightarrow> string \<Rightarrow> state \<Rightarrow> localStorage" where
  "saveProgress store lv dt gameState =
     store\<lparr>progressItems := (progressItems store)(progressKey lv dt \<mapsto> Json gameState)\<rparr>"

text \<open>\<open>data ? JSON.parse(data) : null\<close>: a missing item and the empty text are falsy.\<close>

definition loadProgress :: "localStorage \<Rightarrow> string \<Rightarrow> string \<Rightarrow> error + state option" where
  "loadProgress store lv dt =
     (case progressItems store (progressKey lv dt) of
        None \<Rightarrow> Inr None
      | Some (Garbage s) \<Rightarrow> if s = [] then Inr None else Inl SyntaxError
      | Some (Json v) \<Rightarrow> Inr (Some v))"

definition saveStats :: "localStorage \<Rightarrow> stats \<Rightarrow> localStorage" where
  "saveStats store s = store\<lparr>statsItem := Some (Json s)\<rparr>"

definition defaultStats :: stats where
  "defaultStats =
     \<lparr>totalCompleted = 0, totalTime = 0, bestTime = [], streak_current = 0, streak_best = 0,
      history = [], lastPlayed = None\<rparr>"

definition loadStats :: "localStorage \<Rightarrow> error + stats" where
  "loadStats store =
     (case statsItem store of
        None \<Rightarrow> Inr defaultStats
      | Some (Garbage s) \<Rightarrow> if s = [] then Inr defaultStats else Inl SyntaxError
      | Some (Json v) \<Rightarrow> Inr v)"

text \<open>\<open>Math.round(n / d)\<close> for integers \<open>n\<close> and \<open>d > 0\<close>: the nearest integer, halves up.\<close>

definition round_div :: "int \<Rightarrow> int \<Rightarrow> int" where
  "round_div n d = (2 * n + d) div (2 * d)"

definition msPerDay :: int where
  "msPerDay = 86400000"

text \<open>The streak part of \<open>updateStatsOnComplete\<close> (the block under
  \<open>// Streak calculation\<close> and the update of the best streak).\<close>

definition streakCurrent :: "int \<Rightarrow> stats \<Rightarrow> int" where
  "streakCurrent today s =
     (case lastPlayed s of
        Some lastDate \<Rightarrow>
          let diffDays = round_div (today * msPerDay - lastDate * msPerDay) msPerDay in
          if diffDays = 1 then streak_current s + 1
          else if diffDays > 1 then 1
          else streak_current s
      | None \<Rightarrow> 1)"

definition updateStats :: "int \<Rightarrow> string \<Rightarrow> string \<Rightarrow> nat \<Rightarrow> nat \<Rightarrow> stats \<Rightarrow> stats" where
  "updateStats today lv dt el hints s =
     (let best = (case map_of (bestTime s) lv of
                    None \<Rightarrow> AList.update lv el (bestTime s)
                  | Some b \<Rightarrow> if b = 0 \<or> el < b then AList.update lv el (bestTime s) else bestTime s);
          cur = streakCurrent today s;
          hist = \<lparr>h_date = dt, h_level = lv, h_time = el, h_hints = hints, h_noHints = (hints = 0)\<rparr>
                   # history s
      in \<lparr>totalCompleted = totalCompleted s + 1,
          totalTime = totalTime s + el,
          bestTime = best,
          streak_current = cur,
          streak_best = (if cur > streak_best s then cur else streak_best s),
          history = (if length hist > 50 then take 50 hist else hist),
          lastPlayed = Some today\<rparr>)"

definition updateStatsOnComplete ::
  "int \<Rightarrow> localStorage \<Rightarrow> string \<Rightarrow> string \<Rightarrow> nat \<Rightarrow> nat \<Rightarrow> error + stats \<times> localStorage" where
  "updateStatsOnComplete today store lv dt el hints =
     (case loadStats store of
        Inl e \<Rightarrow> Inl e
      | Inr s \<Rightarrow> let s' = updateStats today lv dt el hints s in Inr (s', saveStats store s'))"

section \<open>Game logic (game.js)\<close>

text \<open>
  A session is what \<open>createGame\<close> closes over: the grid object, the game \<open>state\<close>, the
  browser's \<open>localStorage\<close>, whether the debounced save timer is pending, and the
  notifications sent so far through the callbacks \<open>onTimerStart\<close>, \<open>onTimerRestore\<close>,
  \<open>onWordCorrect\<close> and \<open>onComplete\<close>. The clock is an argument: \<open>now\<close> is the value of
  \<open>Date.now()\<close> while the handler runs, and \<open>now div 86400000\<close> (rounding down) is the day of
  \<open>new Date().toISOString().split('T')[0]\<close>. A key \<open>`${row}_${col}`\<close> is the pair
  \<open>(row, col)\<close>.
\<close>

datatype notification =
  TimerStart | TimerRestore nat | WordCorrect nat bool | Complete state stats

record session =
  the_grid :: grid
  the_state :: state
  storage :: localStorage
  saveTimer :: bool
  fired :: "notification list"

definition initialState :: state where
  "initialState =
     \<lparr>letters = [], revealed = {}, correctWords = [], startTime = None, elapsed = 0,
      completed = False, completedAt = None, hintsUsed = 0\<rparr>"

definition andThen :: "error + 'a \<Rightarrow> ('a \<Rightarrow> error + 'b) \<Rightarrow> error + 'b" where
  "andThen m f = (case m of Inl e \<Rightarrow> Inl e | Inr x \<Rightarrow> f x)"

text \<open>A \<open>for\<close> loop whose body may raise.\<close>

fun foldE :: "('a \<Rightarrow> 'b \<Rightarrow> error + 'b) \<Rightarrow> 'a list \<Rightarrow> 'b \<Rightarrow> error + 'b" where
  "foldE f [] s = Inr s"
| "foldE f (x # xs) s = (case f x s of Inl e \<Rightarrow> Inl e | Inr s' \<Rightarrow> foldE f xs s')"

definition scheduleSave :: "session \<Rightarrow> session" where
  "scheduleSave s = s\<lparr>saveTimer := True\<rparr>"

text \<open>\<open>solution[row][col]\<close>: raises when the row is missing, \<open>undefined\<close> (\<open>None\<close>) when
  only the column is.\<close>

definition solAt :: "puzzleData \<Rightarrow> int \<Rightarrow> int \<Rightarrow> error + string option" where
  "solAt pd r c =
     (case js_index (solution pd) r of None \<Rightarrow> Inl TypeError | Some rw \<Rightarrow> Inr (js_index rw c))"

definition markWordCorrect :: "session \<Rightarrow> nat \<Rightarrow> bool \<Rightarrow> error + session" where
  "markWordCorrect s wordIdx animate =
     (case js_index (words (the_grid s)) (int wordIdx) of
        None \<Rightarrow> Inl TypeError
      | Some w \<Rightarrow>
          Inr (s\<lparr>the_grid := fold (\<lambda>p gr. lockCell gr (fst p) (snd p)) (wcells w) (the_grid s),
                 fired := fired s @ [WordCorrect wordIdx animate]\<rparr>))"

definition checkCompletion :: "puzzleData \<Rightarrow> int \<Rightarrow> session \<Rightarrow> error + session" where
  "checkCompletion pd now s =
     (if completed (the_state s) then Inr s
      else if length (correctWords (the_state s)) = length (words (the_grid s)) then
        (let st' = (the_state s)\<lparr>completed := True, completedAt := Some now\<rparr>;
             store' = saveProgress (storage s) (level pd) (date pd) st'
         in case updateStatsOnComplete (now div 86400000) store' (level pd) (date pd)
                   (elapsed st') (hintsUsed st') of
              Inl e \<Rightarrow> Inl e
            | Inr r \<Rightarrow>
                Inr (s\<lparr>the_state := st', storage := snd r,
                       fired := fired s @ [Complete st' (fst r)]\<rparr>))
      else Inr s)"

text \<open>The second \<open>every\<close> of \<open>checkWord\<close>: it stops at the first cell that differs.\<close>

fun allCorrect :: "puzzleData \<Rightarrow> grid \<Rightarrow> coord list \<Rightarrow> error + bool" where
  "allCorrect pd gr [] = Inr True"
| "allCorrect pd gr (p # ps) =
     (case solAt pd (fst p) (snd p) of
        Inl e \<Rightarrow> Inl e
      | Inr solutionLetter \<Rightarrow>
          if Some (getLetter gr (fst p) (snd p)) = solutionLetter then allCorrect pd gr ps
          else Inr False)"

definition checkWord :: "puzzleData \<Rightarrow> int \<Rightarrow> nat \<Rightarrow> session \<Rightarrow> error + session" where
  "checkWord pd now wordIdx s =
     (if wordIdx \<in> set (correctWords (the_state s)) then Inr s
      else case js_index (words (the_grid s)) (int wordIdx) of
        None \<Rightarrow> Inr s
      | Some w \<Rightarrow>
          if \<not> list_all (\<lambda>p. getLetter (the_grid s) (fst p) (snd p) \<noteq> []) (wcells w) then Inr s
          else (case allCorrect pd (the_grid s) (wcells w) of
                  Inl e \<Rightarrow> Inl e
                | Inr ok \<Rightarrow>
                    if ok then
                      andThen
                        (markWordCorrect
                           (s\<lparr>the_state := (the_state s)\<lparr>correctWords :=
                                 correctWords (the_state s) @ [wordIdx]\<rparr>\<rparr>) wordIdx True)
                        (checkCompletion pd now)
                    else Inr s))"

text \<open>\<open>if (cw) { if (cw.across != null) checkWord(cw.across); if (cw.down != null)
  checkWord(cw.down); }\<close>\<close>

definition checkCellWords :: "puzzleData \<Rightarrow> int \<Rightarrow> int \<Rightarrow> int \<Rightarrow> session \<Rightarrow> error + session" where
  "checkCellWords pd now r c s =
     (case cellToWordsAt (the_grid s) r c of
        None \<Rightarrow> Inr s
      | Some e \<Rightarrow>
          andThen (case across e of None \<Rightarrow> Inr s | Some i \<Rightarrow> checkWord pd now i s)
            (\<lambda>s1. case down e of None \<Rightarrow> Inr s1 | Some i \<Rightarrow> checkWord pd now i s1))"

text \<open>\<open>!state.startTime\<close> holds for \<open>null\<close> and for the number \<open>0\<close>.\<close>

definition onLetterInput ::
  "puzzleData \<Rightarrow> int \<Rightarrow> int \<Rightarrow> int \<Rightarrow> string \<Rightarrow> session \<Rightarrow> error + session" where
  "onLetterInput pd now r c letter s =
     (let s1 = (if startTime (the_state s) = None \<or> startTime (the_state s) = Some 0
                then s\<lparr>the_state := (the_state s)\<lparr>startTime := Some now\<rparr>,
                       fired := fired s @ [TimerStart]\<rparr>
                else s);
          s2 = s1\<lparr>the_state := (the_state s1)\<lparr>letters :=
                  (if letter \<noteq> [] then AList.update (r, c) letter (letters (the_state s1))
                   else AList.delete (r, c) (letters (the_state s1)))\<rparr>\<rparr>
      in andThen (checkCellWords pd now r c s2) (\<lambda>s3. Inr (scheduleSave s3)))"

text \<open>The letter written by a reveal: \<open>solution[row][col]\<close>, where assigning \<open>undefined\<close>
  to the value of an input element stores the text \<open>undefined\<close>.\<close>

definition letterText :: "string option \<Rightarrow> string" where
  "letterText l = (case l of None \<Rightarrow> ''undefined'' | Some x \<Rightarrow> x)"

definition revealLetter :: "puzzleData \<Rightarrow> int \<Rightarrow> session \<Rightarrow> error + session" where
  "revealLetter pd now s =
     (let r = activeRow (the_grid s); c = activeCol (the_grid s) in
      if r < 0 \<or> c < 0 then Inr s
      else case getCell (the_grid s) r c of
        None \<Rightarrow> Inr s
      | Some cl \<Rightarrow>
          if isBlack cl then Inr s
          else if isReadOnly (the_grid s) r c then Inr s
          else (case solAt pd r c of
                  Inl e \<Rightarrow> Inl e
                | Inr None \<Rightarrow> Inr s
                | Inr (Some letter) \<Rightarrow>
                    if letter = [] \<or> letter = ''#'' then Inr s
                    else
                      andThen
                        (checkCellWords pd now r c
                           (s\<lparr>the_grid := setLetter (the_grid s) r c letter,
                              the_state := (the_state s)
                                \<lparr>letters := AList.update (r, c) letter (letters (the_state s)),
                                 revealed := insert (r, c) (revealed (the_state s)),
                                 hintsUsed := hintsUsed (the_state s) + 1\<rparr>\<rparr>))
                        (\<lambda>s3. Inr (scheduleSave s3))))"

text \<open>The body shared by the loops of \<open>revealWord\<close> and \<open>revealAll\<close>, after their test
  for cells to skip.\<close>

definition revealCell :: "puzzleData \<Rightarrow> coord \<Rightarrow> session \<Rightarrow> error + session" where
  "revealCell pd p s =
     (case solAt pd (fst p) (snd p) of
        Inl e \<Rightarrow> Inl e
      | Inr l \<Rightarrow>
          Inr (s\<lparr>the_grid := setLetter (the_grid s) (fst p) (snd p) (letterText l),
                 the_state := (the_state s)
                   \<lparr>letters := AList.update p (letterText l) (letters (the_state s)),
                    revealed := insert p (revealed (the_state s)),
                    hintsUsed := (if p \<notin> revealed (the_state s) then hintsUsed (the_state s) + 1
                                  else hintsUsed (the_state s))\<rparr>\<rparr>))"

definition revealWord :: "puzzleData \<Rightarrow> int \<Rightarrow> session \<Rightarrow> error + session" where
  "revealWord pd now s =
     (case getActiveWord (the_grid s) of
        None \<Rightarrow> Inr s
      | Some w \<Rightarrow>
          if wid w \<in> set (correctWords (the_state s)) then Inr s
          else
            andThen
              (foldE (\<lambda>p s'. if isReadOnly (the_grid s') (fst p) (snd p) then Inr s'
                              else revealCell pd p s') (wcells w) s)
              (\<lambda>s1. andThen (checkWord pd now (wid w) s1) (\<lambda>s2. Inr (scheduleSave s2))))"

definition revealAll :: "puzzleData \<Rightarrow> int \<Rightarrow> session \<Rightarrow> error + session" where
  "revealAll pd now s =
     andThen
       (foldE (\<lambda>p s'. case getCell (the_grid s') (int (fst p)) (int (snd p)) of
                         None \<Rightarrow> Inl TypeError
                       | Some cl \<Rightarrow>
                           if isBlack cl \<or> isReadOnly (the_grid s') (int (fst p)) (int (snd p))
                           then Inr s'
                           else revealCell pd (int (fst p), int (snd p)) s')
          (all_coords (rows (the_grid s)) (cols (the_grid s))) s)
       (\<lambda>s1. andThen
          (foldE (\<lambda>i s'. if i \<notin> set (correctWords (the_state s')) then checkWord pd now i s'
                          else Inr s')
             [0..<length (words (the_grid s1))] s1)
          (\<lambda>s2. Inr (scheduleSave s2)))"

definition updateElapsed :: "nat \<Rightarrow> session \<Rightarrow> session" where
  "updateElapsed seconds s = s\<lparr>the_state := (the_state s)\<lparr>elapsed := seconds\<rparr>\<rparr>"

text \<open>\<open>loadSaved\<close>: a saved blob replaces the whole state (it was written from a whole
  state); letters and locks are replayed on the grid; nothing is sent but
  \<open>onWordCorrect(.., false)\<close> and \<open>onTimerRestore\<close>.\<close>

definition loadSaved :: "puzzleData \<Rightarrow> session \<Rightarrow> error + session" where
  "loadSaved pd s =
     (case loadProgress (storage s) (level pd) (date pd) of
        Inl e \<Rightarrow> Inl e
      | Inr None \<Rightarrow> Inr s
      | Inr (Some saved) \<Rightarrow>
          andThen
            (foldE (\<lambda>i s'. markWordCorrect s' i False) (correctWords saved)
               (s\<lparr>the_state := saved,
                  the_grid := fold (\<lambda>e gr. setLetter gr (fst (fst e)) (snd (fst e)) (snd e))
                                (letters saved) (the_grid s)\<rparr>))
            (\<lambda>s1. Inr (s1\<lparr>fired := fired s1 @ [TimerRestore (elapsed (the_state s1))]\<rparr>)))"

definition createGame :: "puzzleData \<Rightarrow> grid \<Rightarrow> localStorage \<Rightarrow> error + session" where
  "createGame pd gr store0 =
     loadSaved pd
       \<lparr>the_grid = gr, the_state = initialState, storage = store0, saveTimer = False, fired = []\<rparr>"

section \<open>Keyboard and pointer events (grid.js, wired as in app.js)\<close>

record keyEvent =
  key :: string
  shiftKey :: bool

text \<open>The test of the key against the letter class, on a key of one code unit: the ranges \<open>a-z\<close>, \<open>A-Z\<close>
  and \<open>U+00C0\<close> to \<open>U+00FF\<close>.\<close>

definition isLetterKey :: "char \<Rightarrow> bool" where
  "isLetterKey ch =
     (let n = (of_char ch :: nat) in (97 \<le> n \<and> n \<le> 122) \<or> (65 \<le> n \<and> n \<le> 90) \<or> (192 \<le> n \<and> n \<le> 255))"

text \<open>\<open>normalize('NFD')\<close> followed by the removal of the combining marks \<open>U+0300\<close> to \<open>U+036F\<close>, on one code unit of the accepted
  ranges: a letter with a diacritic decomposes into its base letter and combining marks,
  which are removed; the other code units are unchanged.\<close>

definition stripDiacritic :: "char \<Rightarrow> char" where
  "stripDiacritic ch =
     (let n = (of_char ch :: nat) in
      if 192 \<le> n \<and> n \<le> 197 then CHR ''A'' else if n = 199 then CHR ''C''
      else if 200 \<le> n \<and> n \<le> 203 then CHR ''E'' else if 204 \<le> n \<and> n \<le> 207 then CHR ''I''
      else if n = 209 then CHR ''N'' else if 210 \<le> n \<and> n \<le> 214 then CHR ''O''
      else if 217 \<le> n \<and> n \<le> 220 then CHR ''U'' else if n = 221 then CHR ''Y''
      else if 224 \<le> n \<and> n \<le> 229 then CHR ''a'' else if n = 231 then CHR ''c''
      else if 232 \<le> n \<and> n \<le> 235 then CHR ''e'' else if 236 \<le> n \<and> n \<le> 239 then CHR ''i''
      else if n = 241 then CHR ''n'' else if 242 \<le> n \<and> n \<le> 246 then CHR ''o''
      else if 249 \<le> n \<and> n \<le> 252 then CHR ''u'' else if n = 253 \<or> n = 255 then CHR ''y''
      else ch)"

text \<open>\<open>toUpperCase()\<close> on what \<open>stripDiacritic\<close> returns for an accepted key: an ASCII
  letter, or one of the letters without decomposition (the sharp s becomes \<open>SS\<close>).\<close>

definition toUpperCase :: "char \<Rightarrow> string" where
  "toUpperCase ch =
     (let n = (of_char ch :: nat) in
      if 97 \<le> n \<and> n \<le> 122 then [char_of (n - 32)]
      else if n = 223 then ''SS''
      else if 224 \<le> n \<and> n \<le> 254 \<and> n \<noteq> 247 then [char_of (n - 32)]
      else [ch])"

definition normalizeKey :: "char \<Rightarrow> string" where
  "normalizeKey ch = toUpperCase (stripDiacritic ch)"

definition nav :: "(grid \<Rightarrow> error + grid) \<Rightarrow> session \<Rightarrow> error + session" where
  "nav f s = (case f (the_grid s) of Inl e \<Rightarrow> Inl e | Inr gr \<Rightarrow> Inr (s\<lparr>the_grid := gr\<rparr>))"

text \<open>\<open>setLetter(row, col, x); callbacks.onLetterInput(row, col, x)\<close>, the callback being
  the game's \<open>onLetterInput\<close>.\<close>

definition inputLetter ::
  "puzzleData \<Rightarrow> int \<Rightarrow> int \<Rightarrow> int \<Rightarrow> string \<Rightarrow> session \<Rightarrow> error + session" where
  "inputLetter pd now r c letter s =
     onLetterInput pd now r c letter (s\<lparr>the_grid := setLetter (the_grid s) r c letter\<rparr>)"

definition handleKeyDown ::
  "puzzleData \<Rightarrow> int \<Rightarrow> keyEvent \<Rightarrow> int \<Rightarrow> int \<Rightarrow> session \<Rightarrow> error + session" where
  "handleKeyDown pd now e r c s =
     (if key e = ''ArrowRight'' then nav (\<lambda>gr. moveArrow gr 0 1) s
      else if key e = ''ArrowLeft'' then nav (\<lambda>gr. moveArrow gr 0 (-1)) s
      else if key e = ''ArrowDown'' then nav (\<lambda>gr. moveArrow gr 1 0) s
      else if key e = ''ArrowUp'' then nav (\<lambda>gr. moveArrow gr (-1) 0) s
      else if key e = ''Tab'' then nav (\<lambda>gr. moveToNextWord gr (shiftKey e)) s
      else if key e = ''Enter'' then nav (\<lambda>gr. moveToNextWord gr False) s
      else if key e = '' '' then nav toggleDirection s
      else if key e = ''Backspace'' then
        (case getCell (the_grid s) r c of
           None \<Rightarrow> Inl TypeError
         | Some cl \<Rightarrow>
             (case input cl of
                None \<Rightarrow> Inl TypeError
              | Some i \<Rightarrow>
                  if val i \<noteq> [] then inputLetter pd now r c [] s
                  else andThen (nav moveToPrevCell s)
                         (\<lambda>s1. if activeRow (the_grid s1) \<ge> 0 \<and> activeCol (the_grid s1) \<ge> 0
                                then inputLetter pd now (activeRow (the_grid s1))
                                       (activeCol (the_grid s1)) [] s1
                                else Inr s1)))
      else if key e = ''Delete'' then inputLetter pd now r c [] s
      else if length (key e) = 1 \<and> isLetterKey (hd (key e)) then
        andThen (inputLetter pd now r c (normalizeKey (hd (key e))) s) (nav moveToNextCell)
      else Inr s)"

text \<open>What can happen to a session: a key pressed in the input of cell \<open>(r, c)\<close>, that
  input focused or clicked, one of the three reveal buttons, a timer tick reporting the
  elapsed seconds, and the debounced save coming due.\<close>

datatype event =
  KeyDown keyEvent int int | Focus int int | Click int int
  | RevealLetter | RevealWord | RevealAll | Tick nat | SaveTimeout

definition step :: "puzzleData \<Rightarrow> int \<Rightarrow> event \<Rightarrow> session \<Rightarrow> error + session" where
  "step pd now ev s =
     (case ev of
        KeyDown e r c \<Rightarrow> handleKeyDown pd now e r c s
      | Focus r c \<Rightarrow> nav (\<lambda>gr. handleCellFocus gr r c) s
      | Click r c \<Rightarrow> nav (\<lambda>gr. handleClick gr r c) s
      | RevealLetter \<Rightarrow> revealLetter pd now s
      | RevealWord \<Rightarrow> revealWord pd now s
      | RevealAll \<Rightarrow> revealAll pd now s
      | Tick n \<Rightarrow> Inr (updateElapsed n s)
      | SaveTimeout \<Rightarrow>
          Inr (if saveTimer s
               then s\<lparr>storage := saveProgress (storage s) (level pd) (date pd) (the_state s),
                      saveTimer := False\<rparr>
               else s))"

text \<open>A run: the events in order, each with the clock value at which it is handled.\<close>

fun run :: "puzzleData \<Rightarrow> (int \<times> event) list \<Rightarrow> session \<Rightarrow> error + session" where
  "run pd [] s = Inr s"
| "run pd (x # xs) s =
     (case step pd (fst x) (snd x) s of Inl e \<Rightarrow> Inl e | Inr s' \<Rightarrow> run pd xs s')"

section \<open>Example data\<close>

text \<open>A 2 x 2 puzzle: 1-Across is \<open>AB\<close>, 1-Down is \<open>AC\<close>, 2-Down is \<open>B\<close>; the cell
  \<open>(1, 1)\<close> is black.\<close>

definition exPuzzle :: puzzleData where
  "exPuzzle =
     \<lparr>level = ''daily'', date = ''2026-02-15'', height = 2, width = 2,
      puzzle = [[Num 1, Num 2], [Num 3, Str ''#'']],
      solution = [[''A'', ''B''], [''C'', ''#'']],
      cluesAcross = [(1, ''first row'')],
      cluesDown = [(1, ''first column''), (2, ''second column'')]\<rparr>"

definition emptyStore :: localStorage where
  "emptyStore = \<lparr>progressItems = (\<lambda>k. None), statsItem = None\<rparr>"

text \<open>A store whose progress item for \<open>exPuzzle\<close> and whose statistics item are the text
  \<open>{\<close>, which is not JSON.\<close>

definition corruptStore :: localStorage where
  "corruptStore =
     \<lparr>progressItems = (\<lambda>k. if k = ''crosswords_progress_daily_2026-02-15'' then Some (Garbage ''{'') else None),
      statsItem = Some (Garbage ''{'')\<rparr>"

definition exSession :: session where
  "exSession =
     \<lparr>the_grid = newGrid exPuzzle, the_state = initialState, storage = emptyStore,
      saveTimer = False, fired = []\<rparr>"

definition letterKey :: "string \<Rightarrow> keyEvent" where
  "letterKey k = \<lparr>key = k, shiftKey = False\<rparr>"

text \<open>Statistics after three days in a row, last played on day 20000, and a store
  holding them.\<close>

definition exStats :: stats where
  "exStats =
     \<lparr>totalCompleted = 3, totalTime = 900, bestTime = [(''daily'', 250)], streak_current = 3,
      streak_best = 5, history = [], lastPlayed = Some 20000\<rparr>"

definition statsStore :: localStorage where
  "statsStore = \<lparr>progressItems = (\<lambda>k. None), statsItem = Some (Json exStats)\<rparr>"

text \<open>The solution's letter at a coordinate, when there is one.\<close>

definition solutionLetter :: "puzzleData \<Rightarrow> coord \<Rightarrow> string option" where
  "solutionLetter pd p = (case solAt pd (fst p) (snd p) of Inl e \<Rightarrow> None | Inr l \<Rightarrow> l)"

text \<open>The statistics item can be read: it is absent, empty, or JSON.\<close>

definition statsReadable :: "localStorage \<Rightarrow> bool" where
  "statsReadable store0 = (case statsItem store0 of Some (Garbage t) \<Rightarrow> t = [] | _ \<Rightarrow> True)"

text \<open>The session reached from \<open>exSession\<close> by a list of events (\<open>exSession\<close> itself if
  one of them raises).\<close>

definition atEx :: "(int \<times> event) list \<Rightarrow> session" where
  "atEx evs = (case run exPuzzle evs exSession of Inr s \<Rightarrow> s | Inl e \<Rightarrow> exSession)"

text \<open>1-Across typed in full: the word is validated and its two cells are locked.\<close>

definition lockedSession :: session where
  "lockedSession =
     atEx [(1, Focus 0 0), (2, KeyDown (letterKey ''a'') 0 0), (3, KeyDown (letterKey ''b'') 0 1)]"

definition letterAfter :: "error + session \<Rightarrow> int \<Rightarrow> int \<Rightarrow> error + string" where
  "letterAfter r row col = (case r of Inl e \<Rightarrow> Inl e | Inr s \<Rightarrow> Inr (getLetter (the_grid s) row col))"

text \<open>Every cell of every word has a row in the solution grid, so that reading the
  solution's letter there does not raise.\<close>

definition solutionCovers :: "puzzleData \<Rightarrow> grid \<Rightarrow> bool" where
  "solutionCovers pd gr =
     list_all (\<lambda>w. list_all (\<lambda>p. js_index (solution pd) (fst p) \<noteq> None) (wcells w)) (words gr)"

text \<open>\<open>exSession\<close> with the letters of 1-Across in its two cells, before any validation.\<close>

definition filledSession :: session where
  "filledSession =
     exSession\<lparr>the_grid := setLetter (setLetter (newGrid exPuzzle) 0 0 ''A'') 0 1 ''B''\<rparr>"


definition hintsAfter :: "error + session \<Rightarrow> error + nat" where
  "hintsAfter r = (case r of Inl e \<Rightarrow> Inl e | Inr s \<Rightarrow> Inr (hintsUsed (the_state s)))"

text \<open>A single playable cell with no number and no clue: it belongs to no word.\<close>

definition isoPuzzle :: puzzleData where
  "isoPuzzle =
     \<lparr>level = ''daily'', date = ''2026-02-16'', height = 1, width = 1,
      puzzle = [[Str '':'']], solution = [[''A'']], cluesAcross = [], cluesDown = []\<rparr>"

definition directionAfter :: "error + grid \<Rightarrow> error + direction" where
  "directionAfter r = (case r of Inl e \<Rightarrow> Inl e | Inr gr \<Rightarrow> Inr (activeDirection gr))"

text \<open>One row of two numbered cells with an Across clue for each: the word of clue 1
  runs over the cell where the word of clue 2 starts.\<close>

definition overlapPuzzle :: puzzleData where
  "overlapPuzzle =
     \<lparr>level = ''daily'', date = ''2026-02-17'', height = 1, width = 2,
      puzzle = [[Num 1, Num 2]], solution = [[''A'', ''B'']],
      cluesAcross = [(1, ''both cells''), (2, ''second cell'')], cluesDown = []\<rparr>"

text \<open>How often \<open>onTimerStart\<close> and \<open>onComplete\<close> have been called.\<close>

definition timerStarts :: "session \<Rightarrow> nat" where
  "timerStarts s = length (filter (\<lambda>n. n = TimerStart) (fired s))"

definition isComplete :: "notification \<Rightarrow> bool" where
  "isComplete n = (case n of Complete st v \<Rightarrow> True | _ \<Rightarrow> False)"

definition completions :: "session \<Rightarrow> nat" where
  "completions s = length (filter isComplete (fired s))"

text \<open>\<open>!state.startTime\<close>\<close>

definition clockUnset :: "session \<Rightarrow> bool" where
  "clockUnset s = (startTime (the_state s) = None \<or> startTime (the_state s) = Some 0)"

text \<open>Only the cursor (active cell and direction) differs between two grids.\<close>

definition cursorOnly :: "grid \<Rightarrow> grid \<Rightarrow> bool" where
  "cursorOnly gr gr' =
     (cells gr' = cells gr \<and> words gr' = words gr \<and> cellToWords gr' = cellToWords gr
      \<and> rows gr' = rows gr \<and> cols gr' = cols gr)"

text \<open>Only cell contents and locks differ between two grids.\<close>

definition cellsOnly :: "grid \<Rightarrow> grid \<Rightarrow> bool" where
  "cellsOnly gr gr' =
     (words gr' = words gr \<and> cellToWords gr' = cellToWords gr \<and> rows gr' = rows gr
      \<and> cols gr' = cols gr \<and> activeRow gr' = activeRow gr \<and> activeCol gr' = activeCol gr
      \<and> activeDirection gr' = activeDirection gr)"


text \<open>What validation may change between two sessions: the validated words, the completion
  flag and timestamp, the statistics, locks on cells, and notifications other than
  \<open>onTimerStart\<close>.\<close>

definition validationOnly :: "session \<Rightarrow> session \<Rightarrow> bool" where
  "validationOnly s s' =
     (\<exists>cw' cmp cat ns.
        the_state s' = (the_state s)\<lparr>correctWords := cw', completed := cmp, completedAt := cat\<rparr>
        \<and> fired s' = fired s @ ns \<and> TimerStart \<notin> set ns
        \<and> cellsOnly (the_grid s) (the_grid s') \<and> saveTimer s' = saveTimer s)"

text \<open>The invariant of the validated set and of completion: validated word ids are
  distinct ids of words; a completed puzzle has all its words validated; and a sent
  \<open>onComplete\<close> notification goes with the completed flag, a completion timestamp and the
  statistics it carries being the stored ones.\<close>

definition validatedOk :: "session \<Rightarrow> bool" where
  "validatedOk s =
     (distinct (correctWords (the_state s))
      \<and> (\<forall>i\<in>set (correctWords (the_state s)). i < length (words (the_grid s)))
      \<and> (completed (the_state s) \<longrightarrow>
            length (correctWords (the_state s)) = length (words (the_grid s)))
      \<and> (\<forall>st v. Complete st v \<in> set (fired s) \<longrightarrow>
            completed (the_state s) \<and> completedAt (the_state s) \<noteq> None
            \<and> statsItem (storage s) = Some (Json v) \<and> completed st))"

text \<open>Whether the count of validated words equals the count of words.\<close>

definition allValidated :: "session \<Rightarrow> bool" where
  "allValidated s = (length (correctWords (the_state s)) = length (words (the_grid s)))"

definition completionStep :: "session \<Rightarrow> session \<Rightarrow> bool" where
  "completionStep s s' =
     (validatedOk s \<longrightarrow>
        validatedOk s' \<and> length (words (the_grid s')) = length (words (the_grid s))
        \<and> length (correctWords (the_state s)) \<le> length (correctWords (the_state s'))
        \<and> completions s' = completions s + (if \<not> allValidated s \<and> allValidated s' then 1 else 0)
        \<and> (completed (the_state s) \<longrightarrow> completed (the_state s')))"

definition clockStep :: "session \<Rightarrow> session \<Rightarrow> bool" where
  "clockStep s s' =
     (timerStarts s' = timerStarts s + (if clockUnset s \<and> \<not> clockUnset s' then 1 else 0)
      \<and> (\<not> clockUnset s \<longrightarrow> startTime (the_state s') = startTime (the_state s)))"


definition clockQuiet :: "session \<Rightarrow> session \<Rightarrow> bool" where
  "clockQuiet s s' =
     (startTime (the_state s') = startTime (the_state s) \<and> timerStarts s' = timerStarts s)"

text \<open>A pure cursor move between two sessions.\<close>

definition cursorMove :: "session \<Rightarrow> session \<Rightarrow> bool" where
  "cursorMove s s' =
     (the_state s' = the_state s \<and> storage s' = storage s \<and> saveTimer s' = saveTimer s
      \<and> fired s' = fired s \<and> cursorOnly (the_grid s) (the_grid s'))"







text \<open>The hint counter grows by the number of cells newly marked as revealed.\<close>

definition hintStep :: "session \<Rightarrow> session \<Rightarrow> bool" where
  "hintStep s s' =
     (revealed (the_state s) \<subseteq> revealed (the_state s')
      \<and> finite (revealed (the_state s') - revealed (the_state s))
      \<and> hintsUsed (the_state s') =
          hintsUsed (the_state s) + card (revealed (the_state s') - revealed (the_state s)))"

subsection \<open>Notions for the statements about word building\<close>

text \<open>The clue number labels a cell of the grid.\<close>

definition labelled :: "puzzleData \<Rightarrow> nat \<Rightarrow> bool" where
  "labelled pd n = (\<exists>r<height pd. \<exists>c<width pd. pz pd r c = Num n)"

text \<open>The cell \<open>j\<close> steps to the right of (or below) a cell.\<close>

definition shiftBy :: "direction \<Rightarrow> coord \<Rightarrow> nat \<Rightarrow> coord" where
  "shiftBy d p j = (case d of Across \<Rightarrow> (fst p, snd p + int j) | Down \<Rightarrow> (fst p + int j, snd p))"

text \<open>\<open>cellToWords[r]?.[c]?.[d]\<close>\<close>

definition wordAt :: "grid \<Rightarrow> direction \<Rightarrow> int \<Rightarrow> int \<Rightarrow> nat option" where
  "wordAt gr d r c = (case cellToWordsAt gr r c of None \<Rightarrow> None | Some e \<Rightarrow> cw_get e d)"

text \<open>The ids of the words of a direction that run over a cell, in increasing order.\<close>

definition matching :: "word list \<Rightarrow> direction \<Rightarrow> coord \<Rightarrow> nat list" where
  "matching ws d p =
     filter (\<lambda>j. wdirection (ws ! j) = d \<and> p \<in> set (wcells (ws ! j))) [0..<length ws]"

definition lastMatching :: "word list \<Rightarrow> direction \<Rightarrow> coord \<Rightarrow> nat option" where
  "lastMatching ws d p = (if matching ws d p = [] then None else Some (last (matching ws d p)))"


text \<open>The words one clue list adds, the first of them with id \<open>i\<close>: what the loop
  \<open>for (const [num, clue] of clues)\<close> pushes.\<close>

fun newWords :: "puzzleData \<Rightarrow> direction \<Rightarrow> nat \<Rightarrow> (nat \<times> string) list \<Rightarrow> word list" where
  "newWords pd d i [] = []"
| "newWords pd d i (e # es) =
     (case numberToPos pd (fst e) of
        None \<Rightarrow> newWords pd d i es
      | Some pos \<Rightarrow>
          \<lparr>wid = i, wnumber = fst e, wdirection = d, wcells = walk pd d pos, wclue = snd e\<rparr>
            # newWords pd d (Suc i) es)"

text \<open>The invariant of the index while words are added: it has the shape of the grid,
  and the entry of a cell for a direction is the last word so far that runs over it.\<close>

definition c2w_ok :: "puzzleData \<Rightarrow> word list \<times> cw list list \<Rightarrow> bool" where
  "c2w_ok pd acc =
     (length (snd acc) = height pd \<and> (\<forall>row\<in>set (snd acc). length row = width pd)
      \<and> (\<forall>r<height pd. \<forall>c<width pd. \<forall>d.
            cw_get (snd acc ! r ! c) d = lastMatching (fst acc) d (int r, int c)))"

text \<open>A code unit that a letter key leaves in a cell: an ASCII capital letter, or one of
  the code units of the accepted range that have no decomposition and no other capital
  form (\<open>U+00C6\<close>, \<open>U+00D0\<close>, \<open>U+00D7\<close>, \<open>U+00D8\<close>, \<open>U+00DE\<close>, \<open>U+00F7\<close>).\<close>

definition isNormalForm :: "char \<Rightarrow> bool" where
  "isNormalForm ch =
     (let n = (of_char ch :: nat) in
      (65 \<le> n \<and> n \<le> 90) \<or> n = 198 \<or> n = 208 \<or> n = 215 \<or> n = 216 \<or> n = 222 \<or> n = 247)"

text \<open>One row of two cells, the word 1-Across over both; its solution is a small \<open>a\<close>
  followed by a capital E with acute accent (\<open>U+00C9\<close>).\<close>

definition accentPuzzle :: puzzleData where
  "accentPuzzle =
     \<lparr>level = ''daily'', date = ''2026-02-18'', height = 1, width = 2,
      puzzle = [[Num 1, Num 0]], solution = [[''a'', [CHR 0xC9]]],
      cluesAcross = [(1, ''the row'')], cluesDown = []\<rparr>"

text \<open>The session on \<open>accentPuzzle\<close> after the keys \<open>a\<close> and e with acute accent
  (\<open>U+00E9\<close>) have been typed into its two cells.\<close>

definition accentTyped :: "error + session" where
  "accentTyped =
     andThen (createGame accentPuzzle (newGrid accentPuzzle) emptyStore)
       (run accentPuzzle
          [(1, Focus 0 0), (2, KeyDown (letterKey ''a'') 0 0), (3, KeyDown (letterKey [CHR 0xE9]) 0 1)])"

definition validatedAfter :: "error + session \<Rightarrow> error + nat list" where
  "validatedAfter r = (case r of Inl e \<Rightarrow> Inl e | Inr s \<Rightarrow> Inr (correctWords (the_state s)))"

text \<open>What an event handled at clock value \<open>now\<close> does to completion, from a session
  that satisfies the invariant: notifications are only added; if it brings the validated
  count to the word count, the statistics stored before are readable, their update is
  stored and sent with the completed state, and the timestamp is \<open>now\<close>; otherwise the
  statistics item and the timestamp are untouched.\<close>

definition statsStep :: "puzzleData \<Rightarrow> int \<Rightarrow> session \<Rightarrow> session \<Rightarrow> bool" where
  "statsStep pd now s s' =
     (validatedOk s \<longrightarrow>
        (\<exists>ns. fired s' = fired s @ ns)
        \<and> (if \<not> allValidated s \<and> allValidated s'
           then (\<exists>st v0. loadStats (storage s) = Inr v0
                   \<and> Complete st (updateStats (now div 86400000) (level pd) (date pd)
                                   (elapsed st) (hintsUsed st) v0) \<in> set (fired s')
                   \<and> statsItem (storage s') =
                       Some (Json (updateStats (now div 86400000) (level pd) (date pd)
                                     (elapsed st) (hintsUsed st) v0))
                   \<and> completed st \<and> completedAt st = Some now
                   \<and> completedAt (the_state s') = Some now)
           else statsItem (storage s') = statsItem (storage s)
                \<and> completedAt (the_state s') = completedAt (the_state s)))"

definition doneStep :: "puzzleData \<Rightarrow> int \<Rightarrow> session \<Rightarrow> session \<Rightarrow> bool" where
  "doneStep pd now s s' = (completionStep s s' \<and> statsStep pd now s s')"




section \<open>Properties of the cell accessors\<close>

declare walk.simps [simp del] moveArrowLoop.simps [simp del]

lemma newGrid_ex_cells:
  "cells (newGrid exPuzzle) =
     [[\<lparr>input = Some \<lparr>val = [], readOnly = False\<rparr>, number = Some 1\<rparr>,
       \<lparr>input = Some \<lparr>val = [], readOnly = False\<rparr>, number = Some 2\<rparr>],
      [\<lparr>input = Some \<lparr>val = [], readOnly = False\<rparr>, number = Some 3\<rparr>,
       \<lparr>input = None, number = None\<rparr>]]"
  by (simp add: newGrid_def render_def exPuzzle_def pz_def upt_rec)

lemma render_shape:
  "length (render pd) = height pd"
  "r < height pd \<Longrightarrow> length (render pd ! r) = width pd"
  by (simp_all add: render_def)

text \<open>
  C10. For every coordinate pair outside the \<open>cells\<close> array (a negative or too large row
  or column) and for every black cell, \<open>getLetter\<close> returns the empty string and
  \<open>setLetter\<close> returns the grid unchanged. Both are total: every step of the two source
  functions is an optional read, so neither has a failing branch. (\<open>render_shape\<close>: the
  array built by \<open>render\<close> has \<open>height\<close> rows of \<open>width\<close> cells.)
\<close>

theorem getLetter_setLetter_outside:
  assumes "r < 0 \<or> int (length (cells g)) \<le> r \<or> c < 0 \<or> int (length (cells g ! nat r)) \<le> c
           \<or> isBlack (cells g ! nat r ! nat c)"
  shows "getLetter g r c = [] \<and> setLetter g r c letter = g"
  using assms
  by (auto simp: getLetter_def setLetter_def getCell_def js_index_def isBlack_def
           split: option.splits)

theorem getLetter_setLetter_outside_witness:
  "getLetter (newGrid exPuzzle) 5 0 = [] \<and> setLetter (newGrid exPuzzle) 5 0 ''X'' = newGrid exPuzzle
   \<and> getLetter (newGrid exPuzzle) 1 1 = [] \<and> setLetter (newGrid exPuzzle) 1 1 ''X'' = newGrid exPuzzle
   \<and> getLetter (newGrid exPuzzle) (-1) 0 = []"
  using getLetter_setLetter_outside [of 5 "newGrid exPuzzle" 0 "''X''"]
        getLetter_setLetter_outside [of 1 "newGrid exPuzzle" 1 "''X''"]
        getLetter_setLetter_outside [of "-1" "newGrid exPuzzle" 0 "''X''"]
  by (simp add: newGrid_ex_cells isBlack_def)

section \<open>Properties of the persistence layer\<close>

lemma round_div_days: "round_div (k * msPerDay) msPerDay = k"
  by (simp add: round_div_def msPerDay_def)

lemma round_div_diff: "round_div (a * msPerDay - b * msPerDay) msPerDay = a - b"
proof -
  have "a * msPerDay - b * msPerDay = (a - b) * msPerDay"
    by (simp add: left_diff_distrib)
  then show ?thesis
    by (simp only: round_div_days)
qed

lemma streakCurrent_eq:
  "streakCurrent today s =
     (case lastPlayed s of
        None \<Rightarrow> 1
      | Some d \<Rightarrow> if today - d = 1 then streak_current s + 1
                  else if today - d > 1 then 1 else streak_current s)"
  unfolding streakCurrent_def round_div_diff Let_def by simp

text \<open>
  C6. Whatever statistics record \<open>s\<close> is loaded, \<open>updateStatsOnComplete\<close> succeeds, stores
  the record it returns, and recomputes the streak as follows: last played exactly one
  day before today, the current streak grows by one; more than one day before, it is
  reset to 1; the same day, it is unchanged; never played, it becomes 1. The best streak
  becomes the new current streak when that is larger and is unchanged otherwise.
\<close>

theorem streak_recompute:
  assumes "loadStats store0 = Inr s"
  shows "\<exists>s' store'. updateStatsOnComplete today store0 lv dt el hints = Inr (s', store')
           \<and> statsItem store' = Some (Json s')
           \<and> (lastPlayed s = Some (today - 1) \<longrightarrow> streak_current s' = streak_current s + 1)
           \<and> (\<forall>d. lastPlayed s = Some d \<and> d < today - 1 \<longrightarrow> streak_current s' = 1)
           \<and> (lastPlayed s = Some today \<longrightarrow> streak_current s' = streak_current s)
           \<and> (lastPlayed s = None \<longrightarrow> streak_current s' = 1)
           \<and> streak_best s' = (if streak_current s' > streak_best s then streak_current s'
                                else streak_best s)"
  using assms
  by (auto simp: updateStatsOnComplete_def updateStats_def Let_def saveStats_def streakCurrent_eq)

theorem streak_recompute_witness:
  "\<exists>s' store'. updateStatsOnComplete 20001 statsStore ''daily'' ''2026-02-15'' 300 0 = Inr (s', store')
      \<and> streak_current s' = 4 \<and> streak_best s' = 5"
proof -
  have h: "loadStats statsStore = Inr exStats"
    by (simp add: loadStats_def statsStore_def)
  have l: "lastPlayed exStats = Some (20001 - 1)" "streak_current exStats = 3" "streak_best exStats = 5"
    by (simp_all add: exStats_def)
  from streak_recompute [OF h, of 20001 "''daily''" "''2026-02-15''" 300 0] l
  show ?thesis by auto
qed

text \<open>
  C7, amended. Loading tolerates absence only. When nothing or the empty text is stored,
  \<open>loadProgress\<close> returns the absent marker and \<open>loadStats\<close> the default record; a stored
  JSON text is returned parsed; a stored non-empty text that is not JSON makes both raise
  \<open>SyntaxError\<close> (the source calls \<open>JSON.parse\<close> with no handler).
\<close>

theorem loading_tolerates_absence_only:
  "(progressItems st (progressKey lv dt) = None \<or> progressItems st (progressKey lv dt) = Some (Garbage [])
      \<longrightarrow> loadProgress st lv dt = Inr None)
   \<and> (\<forall>v. progressItems st (progressKey lv dt) = Some (Json v) \<longrightarrow> loadProgress st lv dt = Inr (Some v))
   \<and> (\<forall>t. t \<noteq> [] \<and> progressItems st (progressKey lv dt) = Some (Garbage t)
          \<longrightarrow> loadProgress st lv dt = Inl SyntaxError)
   \<and> (statsItem st = None \<or> statsItem st = Some (Garbage []) \<longrightarrow> loadStats st = Inr defaultStats)
   \<and> (\<forall>v. statsItem st = Some (Json v) \<longrightarrow> loadStats st = Inr v)
   \<and> (\<forall>t. t \<noteq> [] \<and> statsItem st = Some (Garbage t) \<longrightarrow> loadStats st = Inl SyntaxError)"
  by (auto simp: loadProgress_def loadStats_def)

theorem loading_tolerates_absence_only_witness:
  "loadProgress emptyStore ''daily'' ''2026-02-15'' = Inr None \<and> loadStats emptyStore = Inr defaultStats
   \<and> loadStats statsStore = Inr exStats"
proof -
  have a: "progressItems emptyStore (progressKey ''daily'' ''2026-02-15'') = None"
          "statsItem emptyStore = None" "statsItem statsStore = Some (Json exStats)"
    by (simp_all add: emptyStore_def statsStore_def)
  from loading_tolerates_absence_only [of emptyStore "''daily''" "''2026-02-15''"]
       loading_tolerates_absence_only [of statsStore "''daily''" "''2026-02-15''"] a
  show ?thesis by simp
qed

theorem loading_malformed_raises:
  "loadProgress corruptStore ''daily'' ''2026-02-15'' = Inl SyntaxError
   \<and> loadStats corruptStore = Inl SyntaxError"
  by (simp add: loadProgress_def loadStats_def corruptStore_def progressKey_def)

section \<open>Properties of word validation\<close>

lemma words_ex:
  "words (newGrid exPuzzle) =
     [\<lparr>wid = 0, wnumber = 1, wdirection = Across, wcells = [(0, 0), (0, 1)], wclue = ''first row''\<rparr>,
      \<lparr>wid = 1, wnumber = 1, wdirection = Down, wcells = [(0, 0), (1, 0)], wclue = ''first column''\<rparr>,
      \<lparr>wid = 2, wnumber = 2, wdirection = Down, wcells = [(0, 1)], wclue = ''second column''\<rparr>]"
  by code_simp

lemma getLetter_setLetter_same:
  "getCell gr r c = Some cl \<Longrightarrow> \<not> isBlack cl \<Longrightarrow> getLetter (setLetter gr r c l) r c = l"
  by (auto simp: getLetter_def setLetter_def getCell_def set_cell_def js_index_def isBlack_def
           split: option.splits if_splits)

lemma normalizeKey_examples:
  "normalizeKey CHR ''b'' = ''B''" "normalizeKey CHR ''B'' = ''B''"
  "normalizeKey (char_of (233 :: nat)) = ''E''" "normalizeKey (char_of (199 :: nat)) = ''C''"
  by code_simp+

lemma statsReadable_loadStats: "statsReadable st \<Longrightarrow> \<exists>v. loadStats st = Inr v"
  by (auto simp: statsReadable_def loadStats_def split: option.splits blob.splits)

lemma allCorrect_Inr:
  "\<forall>p\<in>set ps. js_index (solution pd) (fst p) \<noteq> None \<Longrightarrow>
   allCorrect pd gr ps = Inr (\<forall>p\<in>set ps. solutionLetter pd p = Some (getLetter gr (fst p) (snd p)))"
  by (induction ps) (auto simp: solAt_def solutionLetter_def split: option.splits)

lemma markWordCorrect_Inr:
  "js_index (words (the_grid s)) (int i) = Some w \<Longrightarrow>
   markWordCorrect s i a =
     Inr (s\<lparr>the_grid := fold (\<lambda>p gr. lockCell gr (fst p) (snd p)) (wcells w) (the_grid s),
            fired := fired s @ [WordCorrect i a]\<rparr>)"
  by (simp add: markWordCorrect_def)

lemma checkCompletion_idle:
  "completed (the_state s) \<or> length (correctWords (the_state s)) \<noteq> length (words (the_grid s))
   \<Longrightarrow> checkCompletion pd now s = Inr s"
  by (auto simp: checkCompletion_def)

lemma loadStats_saveProgress [simp]: "loadStats (saveProgress st lv dt x) = loadStats st"
  by (simp add: loadStats_def saveProgress_def)

lemma checkCompletion_fires:
  assumes "loadStats (storage s) = Inr v0" "\<not> completed (the_state s)"
    "length (correctWords (the_state s)) = length (words (the_grid s))"
    "st' = (the_state s)\<lparr>completed := True, completedAt := Some now\<rparr>"
    "v = updateStats (now div 86400000) (level pd) (date pd) (elapsed (the_state s))
           (hintsUsed (the_state s)) v0"
  shows "checkCompletion pd now s =
           Inr (s\<lparr>the_state := st',
                  storage := saveStats (saveProgress (storage s) (level pd) (date pd) st') v,
                  fired := fired s @ [Complete st' v]\<rparr>)"
  using assms by (simp add: checkCompletion_def Let_def updateStatsOnComplete_def)

lemma checkCompletion_Inr:
  assumes "statsReadable (storage s)"
  shows "\<exists>s'. checkCompletion pd now s = Inr s' \<and> the_grid s' = the_grid s
           \<and> correctWords (the_state s') = correctWords (the_state s)"
proof (cases "completed (the_state s) \<or> length (correctWords (the_state s)) \<noteq> length (words (the_grid s))")
  case True
  from checkCompletion_idle [OF this] show ?thesis by simp
next
  case False
  from statsReadable_loadStats [OF assms] obtain v0 where "loadStats (storage s) = Inr v0" ..
  from checkCompletion_fires [OF this _ _ refl refl, of pd now] False show ?thesis by auto
qed

text \<open>What \<open>checkWord\<close> decides, where the statistics item is readable and the solution
  grid has a row for every word cell (so that nothing raises).\<close>

lemma checkWord_decides:
  assumes st: "statsReadable (storage s)"
      and cov: "solutionCovers pd (the_grid s)"
  shows "\<exists>s'. checkWord pd now i s = Inr s'
           \<and> (i \<in> set (correctWords (the_state s)) \<longrightarrow> s' = s)
           \<and> (\<forall>w. i \<notin> set (correctWords (the_state s)) \<and> js_index (words (the_grid s)) (int i) = Some w \<longrightarrow>
                 (i \<in> set (correctWords (the_state s')) \<longleftrightarrow>
                    (\<forall>p\<in>set (wcells w). getLetter (the_grid s) (fst p) (snd p) \<noteq> []
                        \<and> solutionLetter pd p = Some (getLetter (the_grid s) (fst p) (snd p))))
                 \<and> ((\<exists>p\<in>set (wcells w). getLetter (the_grid s) (fst p) (snd p) = []) \<longrightarrow> s' = s)
                 \<and> (i \<notin> set (correctWords (the_state s')) \<longrightarrow> s' = s))"
proof (cases "i \<in> set (correctWords (the_state s))")
  case True
  then show ?thesis by (simp add: checkWord_def)
next
  case notin: False
  show ?thesis
  proof (cases "js_index (words (the_grid s)) (int i)")
    case None
    with notin show ?thesis by (simp add: checkWord_def)
  next
    case (Some w)
    then have "w \<in> set (words (the_grid s))"
      by (auto simp: js_index_def split: if_splits)
    with cov have r: "\<forall>p\<in>set (wcells w). js_index (solution pd) (fst p) \<noteq> None"
      by (auto simp: solutionCovers_def list_all_iff)
    note ac = allCorrect_Inr [OF r, of "the_grid s"]
    let ?filled = "list_all (\<lambda>p. getLetter (the_grid s) (fst p) (snd p) \<noteq> []) (wcells w)"
    let ?same = "\<forall>p\<in>set (wcells w). solutionLetter pd p = Some (getLetter (the_grid s) (fst p) (snd p))"
    show ?thesis
    proof (cases "?filled \<and> ?same")
      case False
      with notin Some ac show ?thesis
        by (auto simp: checkWord_def list_all_iff)
    next
      case True
      let ?s1 = "s\<lparr>the_state := (the_state s)\<lparr>correctWords := correctWords (the_state s) @ [i]\<rparr>\<rparr>"
      have w1: "js_index (words (the_grid ?s1)) (int i) = Some w" using Some by simp
      obtain s2 where m: "markWordCorrect ?s1 i True = Inr s2"
        and s2: "the_state s2 = the_state ?s1" "storage s2 = storage s"
        using markWordCorrect_Inr [OF w1, of True] by simp
      from st s2 have "statsReadable (storage s2)" by simp
      from checkCompletion_Inr [OF this, of pd now] obtain s3 where
        c: "checkCompletion pd now s2 = Inr s3"
        and s3: "correctWords (the_state s3) = correctWords (the_state s2)" by blast
      have "checkWord pd now i s = Inr s3"
        using notin Some ac True m c by (simp add: checkWord_def andThen_def)
      moreover have "i \<in> set (correctWords (the_state s3))"
        using s3 s2 by simp
      ultimately show ?thesis
        using notin Some True by (auto simp: list_all_iff)
    qed
  qed
qed

section \<open>Locked cells and the key handler\<close>

text \<open>
  C4, evaluated at a failing input. In \<open>lockedSession\<close> the word 1-Across has been typed
  in full and validated, so \<open>lockCell\<close> has made the input of cell \<open>(0, 0)\<close> read-only
  and the cell holds \<open>A\<close>. A key event in that cell still reaches \<open>handleKeyDown\<close>, whose
  \<open>setLetter\<close> does not look at the read-only flag: the letter key \<open>x\<close> replaces the
  content by \<open>X\<close>, and Backspace and Delete empty the cell.
\<close>

theorem locked_cell_overwritten:
  "isReadOnly (the_grid lockedSession) 0 0 \<and> getLetter (the_grid lockedSession) 0 0 = ''A''
   \<and> 0 \<in> set (correctWords (the_state lockedSession))
   \<and> letterAfter (handleKeyDown exPuzzle 4 (letterKey ''x'') 0 0 lockedSession) 0 0 = Inr ''X''
   \<and> letterAfter (handleKeyDown exPuzzle 4 (letterKey ''Backspace'') 0 0 lockedSession) 0 0 = Inr []
   \<and> letterAfter (handleKeyDown exPuzzle 4 (letterKey ''Delete'') 0 0 lockedSession) 0 0 = Inr []"
  by code_simp

section \<open>Frames: what each operation leaves alone\<close>

lemma andThen_Inr: "andThen m f = Inr y \<longleftrightarrow> (\<exists>x. m = Inr x \<and> f x = Inr y)"
  by (cases m) (auto simp: andThen_def)

lemma cursorOnly_refl [simp]: "cursorOnly gr gr"
  by (simp add: cursorOnly_def)

lemma cursorOnly_trans: "cursorOnly a b \<Longrightarrow> cursorOnly b c \<Longrightarrow> cursorOnly a c"
  by (simp add: cursorOnly_def)

lemma cellsOnly_refl [simp]: "cellsOnly gr gr"
  by (simp add: cellsOnly_def)

lemma cellsOnly_trans: "cellsOnly a b \<Longrightarrow> cellsOnly b c \<Longrightarrow> cellsOnly a c"
  by (simp add: cellsOnly_def)

lemma setActiveCell_cursorOnly: "setActiveCell gr r c d = Inr gr' \<Longrightarrow> cursorOnly gr gr'"
  by (auto simp: setActiveCell_def Let_def cursorOnly_def split: option.splits)

lemma toggleDirection_cursorOnly: "toggleDirection gr = Inr gr' \<Longrightarrow> cursorOnly gr gr'"
  by (auto simp: toggleDirection_def Let_def split: option.splits if_splits
           dest!: setActiveCell_cursorOnly) (auto simp: cursorOnly_def)

lemma moveToNextCell_cursorOnly: "moveToNextCell gr = Inr gr' \<Longrightarrow> cursorOnly gr gr'"
  by (auto simp: moveToNextCell_def Let_def split: option.splits if_splits
           dest!: setActiveCell_cursorOnly)

lemma moveToPrevCell_cursorOnly: "moveToPrevCell gr = Inr gr' \<Longrightarrow> cursorOnly gr gr'"
  by (auto simp: moveToPrevCell_def Let_def split: option.splits if_splits
           dest!: setActiveCell_cursorOnly)

lemma selectTarget_cursorOnly: "selectTarget gr w = Inr gr' \<Longrightarrow> cursorOnly gr gr'"
  by (auto simp: selectTarget_def split: sum.splits option.splits dest!: setActiveCell_cursorOnly)

lemma moveToNextWord_cursorOnly: "moveToNextWord gr b = Inr gr' \<Longrightarrow> cursorOnly gr gr'"
  by (auto simp: moveToNextWord_def Let_def split: option.splits if_splits
           dest!: selectTarget_cursorOnly)

lemma moveArrowLoop_cursorOnly: "moveArrowLoop gr dr dc r c = Inr gr' \<Longrightarrow> cursorOnly gr gr'"
proof (induction gr dr dc r c rule: moveArrowLoop.induct)
  case (1 g dr dc r c)
  show ?case
  proof (cases "r \<ge> 0 \<and> r < int (rows g) \<and> c \<ge> 0 \<and> c < int (cols g)")
    case False
    with "1.prems" show ?thesis by (simp add: moveArrowLoop.simps [of g dr dc r c])
  next
    case True
    with "1.prems" "1.IH" show ?thesis
      by (auto simp: moveArrowLoop.simps [of g dr dc r c] split: option.splits if_splits
               dest!: setActiveCell_cursorOnly)
  qed
qed

lemma moveArrow_cursorOnly: "moveArrow gr dr dc = Inr gr' \<Longrightarrow> cursorOnly gr gr'"
  by (auto simp: moveArrow_def dest: moveArrowLoop_cursorOnly)

lemma handleCellFocus_cursorOnly: "handleCellFocus gr r c = Inr gr' \<Longrightarrow> cursorOnly gr gr'"
  by (auto simp: handleCellFocus_def split: if_splits dest!: setActiveCell_cursorOnly)

lemma handleClick_cursorOnly: "handleClick gr r c = Inr gr' \<Longrightarrow> cursorOnly gr gr'"
  by (auto simp: handleClick_def split: if_splits dest!: toggleDirection_cursorOnly)

lemmas nav_cursorOnly = setActiveCell_cursorOnly toggleDirection_cursorOnly moveToNextCell_cursorOnly
  moveToPrevCell_cursorOnly moveToNextWord_cursorOnly moveArrow_cursorOnly handleCellFocus_cursorOnly
  handleClick_cursorOnly

lemma nav_Inr:
  "nav f s = Inr s' \<longleftrightarrow> (\<exists>gr. f (the_grid s) = Inr gr \<and> s' = s\<lparr>the_grid := gr\<rparr>)"
  by (auto simp: nav_def split: sum.splits)

lemma nav_cursorMove:
  assumes "nav f s = Inr s'" "\<And>gr gr'. f gr = Inr gr' \<Longrightarrow> cursorOnly gr gr'"
  shows "cursorMove s s'"
  using assms by (auto simp: nav_Inr cursorMove_def)


subsection \<open>Validation\<close>

lemma cellsOnly_setLetter [simp]: "cellsOnly gr (setLetter gr r c l)"
  by (auto simp: cellsOnly_def setLetter_def set_cell_def split: option.splits)

lemma cellsOnly_lockCell [simp]: "cellsOnly gr (lockCell gr r c)"
  by (auto simp: cellsOnly_def lockCell_def set_cell_def split: option.splits)

lemma cellsOnly_fold_lockCell: "cellsOnly gr (fold (\<lambda>p g'. lockCell g' (fst p) (snd p)) ps gr)"
proof (induction ps arbitrary: gr)
  case Nil
  show ?case by simp
next
  case (Cons p ps)
  from cellsOnly_trans [OF cellsOnly_lockCell Cons.IH] show ?case by simp
qed

lemma validationOnly_refl [simp]: "validationOnly s s"
  unfolding validationOnly_def
  by (rule exI [of _ "correctWords (the_state s)"], rule exI [of _ "completed (the_state s)"],
      rule exI [of _ "completedAt (the_state s)"], rule exI [of _ "[]"]) simp

lemma validationOnly_trans:
  assumes "validationOnly a b" "validationOnly b c"
  shows "validationOnly a c"
proof -
  from assms(1) obtain cw1 cmp1 cat1 ns1 where
    1: "the_state b = (the_state a)\<lparr>correctWords := cw1, completed := cmp1, completedAt := cat1\<rparr>"
       "fired b = fired a @ ns1" "TimerStart \<notin> set ns1" "cellsOnly (the_grid a) (the_grid b)"
       "saveTimer b = saveTimer a"
    unfolding validationOnly_def by blast
  from assms(2) obtain cw2 cmp2 cat2 ns2 where
    2: "the_state c = (the_state b)\<lparr>correctWords := cw2, completed := cmp2, completedAt := cat2\<rparr>"
       "fired c = fired b @ ns2" "TimerStart \<notin> set ns2" "cellsOnly (the_grid b) (the_grid c)"
       "saveTimer c = saveTimer b"
    unfolding validationOnly_def by blast
  show ?thesis
    unfolding validationOnly_def
    by (rule exI [of _ cw2], rule exI [of _ cmp2], rule exI [of _ cat2], rule exI [of _ "ns1 @ ns2"])
       (use 1 2 cellsOnly_trans in auto)
qed

lemma validationOnly_D:
  assumes "validationOnly s s'"
  shows "startTime (the_state s') = startTime (the_state s)"
    "hintsUsed (the_state s') = hintsUsed (the_state s)"
    "revealed (the_state s') = revealed (the_state s)"
    "letters (the_state s') = letters (the_state s)"
    "elapsed (the_state s') = elapsed (the_state s)"
    "timerStarts s' = timerStarts s"
    "cellsOnly (the_grid s) (the_grid s')"
    "saveTimer s' = saveTimer s"
  using assms unfolding validationOnly_def timerStarts_def by (auto simp: filter_empty_conv)

lemma markWordCorrect_validationOnly:
  assumes "markWordCorrect s i a = Inr s'"
  shows "validationOnly s s'"
proof -
  from assms obtain w :: word where
    s': "s' = s\<lparr>the_grid := fold (\<lambda>p gr. lockCell gr (fst p) (snd p)) (wcells w) (the_grid s),
                 fired := fired s @ [WordCorrect i a]\<rparr>"
    by (auto simp: markWordCorrect_def split: option.splits)
  show ?thesis
    unfolding validationOnly_def
    by (rule exI [of _ "correctWords (the_state s)"], rule exI [of _ "completed (the_state s)"],
      rule exI [of _ "completedAt (the_state s)"], rule exI [of _ "[WordCorrect i a]"])
       (simp add: s' cellsOnly_fold_lockCell)
qed

lemma checkCompletion_validationOnly:
  assumes "checkCompletion pd now s = Inr s'"
  shows "validationOnly s s'"
proof (cases "s' = s")
  case True
  then show ?thesis by simp
next
  case False
  with assms obtain r where
    s': "s' = s\<lparr>the_state := (the_state s)\<lparr>completed := True, completedAt := Some now\<rparr>,
                 storage := snd r,
                 fired := fired s @ [Complete ((the_state s)\<lparr>completed := True, completedAt := Some now\<rparr>) (fst r)]\<rparr>"
    by (auto simp: checkCompletion_def Let_def split: if_splits sum.splits)
  show ?thesis
    unfolding validationOnly_def
    by (rule exI [of _ "correctWords (the_state s)"], rule exI [of _ True],
      rule exI [of _ "Some now"], rule exI [of _ "[Complete ((the_state s)\<lparr>completed := True, completedAt := Some now\<rparr>) (fst r)]"])
       (simp add: s')
qed

lemma validationOnly_correctWords_upd:
  "validationOnly s (s\<lparr>the_state := (the_state s)\<lparr>correctWords := cw\<rparr>\<rparr>)"
  unfolding validationOnly_def
  by (rule exI [of _ cw], rule exI [of _ "completed (the_state s)"],
      rule exI [of _ "completedAt (the_state s)"], rule exI [of _ "[]"]) simp

lemma checkWord_validationOnly:
  assumes "checkWord pd now i s = Inr s'"
  shows "validationOnly s s'"
proof (cases "s' = s")
  case True
  then show ?thesis by simp
next
  case False
  let ?s1 = "s\<lparr>the_state := (the_state s)\<lparr>correctWords := correctWords (the_state s) @ [i]\<rparr>\<rparr>"
  from False assms obtain s2 where
    m: "markWordCorrect ?s1 i True = Inr s2" and c: "checkCompletion pd now s2 = Inr s'"
    by (auto simp: checkWord_def andThen_Inr split: if_splits option.splits sum.splits)
  from validationOnly_trans [OF validationOnly_correctWords_upd
        validationOnly_trans [OF markWordCorrect_validationOnly [OF m]
          checkCompletion_validationOnly [OF c]]]
  show ?thesis .
qed

lemma checkCellWords_validationOnly:
  assumes "checkCellWords pd now r c s = Inr s'"
  shows "validationOnly s s'"
proof (cases "cellToWordsAt (the_grid s) r c")
  case None
  with assms show ?thesis by (simp add: checkCellWords_def)
next
  case (Some e)
  with assms obtain s1 where
    1: "(case across e of None \<Rightarrow> Inr s | Some i \<Rightarrow> checkWord pd now i s) = Inr s1"
    and 2: "(case down e of None \<Rightarrow> Inr s1 | Some i \<Rightarrow> checkWord pd now i s1) = Inr s'"
    by (auto simp: checkCellWords_def andThen_Inr)
  from 1 have a: "validationOnly s s1"
    by (auto split: option.splits dest: checkWord_validationOnly)
  from 2 have b: "validationOnly s1 s'"
    by (auto split: option.splits dest: checkWord_validationOnly)
  from validationOnly_trans [OF a b] show ?thesis .
qed

lemma foldE_rel:
  assumes refl: "\<And>s. R s s" and trans: "\<And>a b c. R a b \<Longrightarrow> R b c \<Longrightarrow> R a c"
    and stp: "\<And>x s s'. x \<in> set xs \<Longrightarrow> f x s = Inr s' \<Longrightarrow> R s s'"
    and run: "foldE f xs s = Inr s'"
  shows "R s s'"
  using stp run
proof (induction xs arbitrary: s)
  case Nil
  then show ?case by (simp add: refl)
next
  case (Cons x xs)
  from Cons.prems(2) obtain s1 where 1: "f x s = Inr s1" and 2: "foldE f xs s1 = Inr s'"
    by (auto split: sum.splits)
  have "R s s1" using Cons.prems(1) [of x s s1] 1 by simp
  moreover have "R s1 s'"
  proof (rule Cons.IH [OF _ 2])
    fix y t t' assume "y \<in> set xs" "f y t = Inr t'"
    then show "R t t'" using Cons.prems(1) [of y t t'] by simp
  qed
  ultimately show ?case by (rule trans)
qed


subsection \<open>The session clock\<close>

lemma clockQuiet_refl [simp]: "clockQuiet s s"
  by (simp add: clockQuiet_def)

lemma clockQuiet_trans: "clockQuiet a b \<Longrightarrow> clockQuiet b c \<Longrightarrow> clockQuiet a c"
  by (simp add: clockQuiet_def)

lemma validationOnly_clockQuiet: "validationOnly s s' \<Longrightarrow> clockQuiet s s'"
  by (simp add: clockQuiet_def validationOnly_D)

lemma clockQuiet_clockStep: "clockQuiet s s' \<Longrightarrow> clockStep s s'"
  by (auto simp: clockQuiet_def clockStep_def clockUnset_def)

lemma clockStep_trans: "clockStep a b \<Longrightarrow> clockStep b c \<Longrightarrow> clockStep a c"
  by (auto simp: clockStep_def clockUnset_def split: if_splits)

lemma clockStep_refl [simp]: "clockStep s s"
  by (simp add: clockStep_def)

lemma cursorMove_clockQuiet: "cursorMove s s' \<Longrightarrow> clockQuiet s s'"
  by (auto simp: cursorMove_def clockQuiet_def timerStarts_def)

lemma scheduleSave_clockQuiet [simp]: "clockQuiet s (scheduleSave s)"
  by (simp add: clockQuiet_def scheduleSave_def timerStarts_def)

lemma revealCell_clockQuiet: "revealCell pd p s = Inr s' \<Longrightarrow> clockQuiet s s'"
  by (auto simp: revealCell_def clockQuiet_def timerStarts_def split: sum.splits)

lemma checkWord_clockQuiet: "checkWord pd now i s = Inr s' \<Longrightarrow> clockQuiet s s'"
  by (blast intro: validationOnly_clockQuiet checkWord_validationOnly)

lemma checkCellWords_clockQuiet: "checkCellWords pd now r c s = Inr s' \<Longrightarrow> clockQuiet s s'"
  by (blast intro: validationOnly_clockQuiet checkCellWords_validationOnly)

lemma revealLetter_clockQuiet:
  assumes "revealLetter pd now s = Inr s'"
  shows "clockQuiet s s'"
proof (cases "s' = s")
  case True
  then show ?thesis by simp
next
  case False
  with assms obtain letter s3 where
    c: "checkCellWords pd now (activeRow (the_grid s)) (activeCol (the_grid s))
          (s\<lparr>the_grid := setLetter (the_grid s) (activeRow (the_grid s)) (activeCol (the_grid s)) letter,
             the_state := (the_state s)
               \<lparr>letters := AList.update (activeRow (the_grid s), activeCol (the_grid s)) letter (letters (the_state s)),
                revealed := insert (activeRow (the_grid s), activeCol (the_grid s)) (revealed (the_state s)),
                hintsUsed := hintsUsed (the_state s) + 1\<rparr>\<rparr>) = Inr s3"
    and s': "s' = scheduleSave s3"
    by (auto simp: revealLetter_def Let_def andThen_Inr split: if_splits option.splits sum.splits)
  from checkCellWords_clockQuiet [OF c] have "clockQuiet s s3"
    by (simp add: clockQuiet_def timerStarts_def)
  with s' show ?thesis
    using clockQuiet_trans scheduleSave_clockQuiet by blast
qed

lemma revealWord_Inr:
  assumes "revealWord pd now s = Inr s'"
  shows "s' = s \<or> (\<exists>w s1 s2. getActiveWord (the_grid s) = Some w
            \<and> wid w \<notin> set (correctWords (the_state s))
            \<and> foldE (\<lambda>p s'. if isReadOnly (the_grid s') (fst p) (snd p) then Inr s'
                              else revealCell pd p s') (wcells w) s = Inr s1
            \<and> checkWord pd now (wid w) s1 = Inr s2 \<and> s' = scheduleSave s2)"
  using assms
  by (auto simp: revealWord_def andThen_Inr split: option.splits if_splits)

lemma revealWord_clockQuiet:
  assumes "revealWord pd now s = Inr s'"
  shows "clockQuiet s s'"
  using revealWord_Inr [OF assms]
proof (elim disjE exE conjE)
  assume "s' = s"
  then show ?thesis by simp
next
  fix w :: word and s1 s2
  assume l: "foldE (\<lambda>p s'. if isReadOnly (the_grid s') (fst p) (snd p) then Inr s'
                        else revealCell pd p s') (wcells w) s = Inr s1"
    and c: "checkWord pd now (wid w) s1 = Inr s2" and s': "s' = scheduleSave s2"
  have "clockQuiet s s1"
    by (rule foldE_rel [where R = clockQuiet, OF _ _ _ l])
       (auto intro: clockQuiet_trans dest: revealCell_clockQuiet split: if_splits)
  with checkWord_clockQuiet [OF c] s' show ?thesis
    using clockQuiet_trans scheduleSave_clockQuiet by blast
qed

lemma revealAll_clockQuiet:
  assumes "revealAll pd now s = Inr s'"
  shows "clockQuiet s s'"
proof -
  from assms obtain s1 s2 where
    l: "foldE (\<lambda>p s'. case getCell (the_grid s') (int (fst p)) (int (snd p)) of
                         None \<Rightarrow> Inl TypeError
                       | Some cl \<Rightarrow>
                           if isBlack cl \<or> isReadOnly (the_grid s') (int (fst p)) (int (snd p))
                           then Inr s'
                           else revealCell pd (int (fst p), int (snd p)) s')
          (all_coords (rows (the_grid s)) (cols (the_grid s))) s = Inr s1"
    and c: "foldE (\<lambda>i s'. if i \<notin> set (correctWords (the_state s')) then checkWord pd now i s'
                          else Inr s')
             [0..<length (words (the_grid s1))] s1 = Inr s2"
    and s': "s' = scheduleSave s2"
    by (auto simp: revealAll_def andThen_Inr)
  have 1: "clockQuiet s s1"
    by (rule foldE_rel [where R = clockQuiet, OF _ _ _ l])
       (auto intro: clockQuiet_trans dest: revealCell_clockQuiet split: if_splits option.splits)
  have 2: "clockQuiet s1 s2"
    by (rule foldE_rel [where R = clockQuiet, OF _ _ _ c])
       (auto intro: clockQuiet_trans dest: checkWord_clockQuiet split: if_splits)
  from 1 2 s' show ?thesis
    using clockQuiet_trans scheduleSave_clockQuiet by blast
qed

lemma onLetterInput_clock:
  assumes "onLetterInput pd now r c letter s = Inr s'" "0 < now"
  shows "(clockUnset s \<longrightarrow> startTime (the_state s') = Some now \<and> timerStarts s' = timerStarts s + 1)
       \<and> (\<not> clockUnset s \<longrightarrow> startTime (the_state s') = startTime (the_state s)
              \<and> timerStarts s' = timerStarts s)"
proof -
  let ?s1 = "if startTime (the_state s) = None \<or> startTime (the_state s) = Some 0
             then s\<lparr>the_state := (the_state s)\<lparr>startTime := Some now\<rparr>,
                    fired := fired s @ [TimerStart]\<rparr>
             else s"
  let ?s2 = "?s1\<lparr>the_state := (the_state ?s1)\<lparr>letters :=
                  (if letter \<noteq> [] then AList.update (r, c) letter (letters (the_state ?s1))
                   else AList.delete (r, c) (letters (the_state ?s1)))\<rparr>\<rparr>"
  from assms(1) obtain s3 where c: "checkCellWords pd now r c ?s2 = Inr s3" and s': "s' = scheduleSave s3"
    by (auto simp: onLetterInput_def Let_def andThen_Inr)
  from checkCellWords_clockQuiet [OF c] s'
  have q: "startTime (the_state s') = startTime (the_state ?s2)" "timerStarts s' = timerStarts ?s2"
    by (simp_all add: clockQuiet_def scheduleSave_def timerStarts_def)
  show ?thesis
    unfolding q by (simp add: clockUnset_def timerStarts_def)
qed

lemma onLetterInput_clockStep:
  assumes "onLetterInput pd now r c letter s = Inr s'" "0 < now"
  shows "clockStep s s'"
  using onLetterInput_clock [OF assms] assms(2)
  by (auto simp: clockStep_def clockUnset_def)

lemma inputLetter_clockStep:
  assumes "inputLetter pd now r c letter s = Inr s'" "0 < now"
  shows "clockStep s s'"
  using onLetterInput_clockStep [OF assms [unfolded inputLetter_def]]
  by (simp add: clockStep_def clockUnset_def timerStarts_def)

lemma inputLetter_clockSet:
  assumes "inputLetter pd now r c letter s = Inr s'" "0 < now"
  shows "\<not> clockUnset s'"
  using onLetterInput_clock [OF assms [unfolded inputLetter_def]] assms(2)
  by (auto simp: clockUnset_def)

lemma handleKeyDown_cases:
  assumes h: "handleKeyDown pd now e r c s = Inr s'"
  shows "cursorMove s s'
       \<or> (\<exists>l. inputLetter pd now r c l s = Inr s')
       \<or> (\<exists>s1. cursorMove s s1
              \<and> (s' = s1 \<or> inputLetter pd now (activeRow (the_grid s1)) (activeCol (the_grid s1)) [] s1 = Inr s'))
       \<or> (\<exists>l s1. inputLetter pd now r c l s = Inr s1 \<and> cursorMove s1 s')
       \<or> s' = s"
proof -
  consider (arrows) "key e = ''ArrowRight'' \<or> key e = ''ArrowLeft'' \<or> key e = ''ArrowDown''
                     \<or> key e = ''ArrowUp''"
    | (words) "key e = ''Tab'' \<or> key e = ''Enter'' \<or> key e = '' ''"
    | (bsp) "key e = ''Backspace''"
    | (del) "key e = ''Delete''"
    | (other) "key e \<noteq> ''ArrowRight''" "key e \<noteq> ''ArrowLeft''" "key e \<noteq> ''ArrowDown''"
        "key e \<noteq> ''ArrowUp''" "key e \<noteq> ''Tab''" "key e \<noteq> ''Enter''" "key e \<noteq> '' ''"
        "key e \<noteq> ''Backspace''" "key e \<noteq> ''Delete''"
    by blast
  then show ?thesis
  proof cases
    case arrows
    with h have "cursorMove s s'"
      by (auto simp: handleKeyDown_def intro: nav_cursorMove moveArrow_cursorOnly)
    then show ?thesis by blast
  next
    case words
    with h have "cursorMove s s'"
      by (auto simp: handleKeyDown_def
               intro: nav_cursorMove moveToNextWord_cursorOnly toggleDirection_cursorOnly)
    then show ?thesis by blast
  next
    case bsp
    with h have
      "inputLetter pd now r c [] s = Inr s'
       \<or> (\<exists>s1. nav moveToPrevCell s = Inr s1
              \<and> (s' = s1 \<or> inputLetter pd now (activeRow (the_grid s1)) (activeCol (the_grid s1)) [] s1 = Inr s'))"
      by (auto simp: handleKeyDown_def andThen_Inr split: option.splits if_splits)
    then have
      "inputLetter pd now r c [] s = Inr s'
       \<or> (\<exists>s1. cursorMove s s1
              \<and> (s' = s1 \<or> inputLetter pd now (activeRow (the_grid s1)) (activeCol (the_grid s1)) [] s1 = Inr s'))"
      using nav_cursorMove [OF _ moveToPrevCell_cursorOnly] by blast
    then show ?thesis by blast
  next
    case del
    with h have "inputLetter pd now r c [] s = Inr s'"
      by (simp add: handleKeyDown_def)
    then show ?thesis by blast
  next
    case other
    with h have
      "(\<exists>l s1. inputLetter pd now r c l s = Inr s1 \<and> nav moveToNextCell s1 = Inr s') \<or> s' = s"
      by (auto simp: handleKeyDown_def andThen_Inr split: if_splits)
    then have
      "(\<exists>l s1. inputLetter pd now r c l s = Inr s1 \<and> cursorMove s1 s') \<or> s' = s"
      using nav_cursorMove [OF _ moveToNextCell_cursorOnly] by blast
    then show ?thesis by blast
  qed
qed

text \<open>Whatever holds of every cursor move and of every letter input, and is reflexive and
  transitive, holds of every key event.\<close>

lemma handleKeyDown_rel:
  assumes refl: "\<And>s. R s s" and trans: "\<And>a b c. R a b \<Longrightarrow> R b c \<Longrightarrow> R a c"
    and nv: "\<And>s s'. cursorMove s s' \<Longrightarrow> R s s'"
    and inp: "\<And>r c l s s'. inputLetter pd now r c l s = Inr s' \<Longrightarrow> R s s'"
    and h: "handleKeyDown pd now e r c s = Inr s'"
  shows "R s s'"
  using handleKeyDown_cases [OF h]
proof (elim disjE exE conjE)
  assume "cursorMove s s'"
  then show ?thesis by (rule nv)
next
  fix l assume "inputLetter pd now r c l s = Inr s'"
  then show ?thesis by (rule inp)
next
  fix s1 assume "cursorMove s s1" "s' = s1"
  then show ?thesis using nv by blast
next
  fix s1 assume "cursorMove s s1"
    "inputLetter pd now (activeRow (the_grid s1)) (activeCol (the_grid s1)) [] s1 = Inr s'"
  then show ?thesis using nv inp trans by blast
next
  fix l s1 assume "inputLetter pd now r c l s = Inr s1" "cursorMove s1 s'"
  then show ?thesis using nv inp trans by blast
next
  assume "s' = s"
  then show ?thesis by (simp add: refl)
qed

lemma step_rel:
  assumes refl: "\<And>s. R s s" and trans: "\<And>a b c. R a b \<Longrightarrow> R b c \<Longrightarrow> R a c"
    and nv: "\<And>s s'. cursorMove s s' \<Longrightarrow> R s s'"
    and inp: "\<And>r c l s s'. inputLetter pd now r c l s = Inr s' \<Longrightarrow> R s s'"
    and rl: "\<And>s s'. revealLetter pd now s = Inr s' \<Longrightarrow> R s s'"
    and rw: "\<And>s s'. revealWord pd now s = Inr s' \<Longrightarrow> R s s'"
    and ra: "\<And>s s'. revealAll pd now s = Inr s' \<Longrightarrow> R s s'"
    and tk: "\<And>n s. R s (updateElapsed n s)"
    and sv: "\<And>s. R s (s\<lparr>storage := saveProgress (storage s) (level pd) (date pd) (the_state s),
                           saveTimer := False\<rparr>)"
    and h: "step pd now ev s = Inr s'"
  shows "R s s'"
proof (cases ev)
  case (KeyDown e r c)
  with h have "handleKeyDown pd now e r c s = Inr s'" by (simp add: step_def)
  from handleKeyDown_rel [of R, OF refl trans nv inp this] show ?thesis .
next
  case (Focus r c)
  with h show ?thesis
    by (auto simp: step_def intro!: nv nav_cursorMove [OF _ handleCellFocus_cursorOnly])
next
  case (Click r c)
  with h show ?thesis
    by (auto simp: step_def intro!: nv nav_cursorMove [OF _ handleClick_cursorOnly])
next
  case RevealLetter
  with h show ?thesis by (auto simp: step_def intro: rl)
next
  case RevealWord
  with h show ?thesis by (auto simp: step_def intro: rw)
next
  case RevealAll
  with h show ?thesis by (auto simp: step_def intro: ra)
next
  case (Tick n)
  with h show ?thesis by (auto simp: step_def intro: tk)
next
  case SaveTimeout
  with h show ?thesis by (auto simp: step_def refl sv split: if_splits)
qed

lemma handleKeyDown_clockStep:
  assumes "handleKeyDown pd now e r c s = Inr s'" "0 < now"
  shows "clockStep s s'"
  by (rule handleKeyDown_rel [where R = clockStep, OF _ _ _ _ assms(1)])
     (auto intro: clockStep_trans cursorMove_clockQuiet [THEN clockQuiet_clockStep]
                  inputLetter_clockStep [OF _ assms(2)])

lemma step_clockStep:
  assumes "step pd now ev s = Inr s'" "0 < now"
  shows "clockStep s s'"
proof (rule step_rel [where R = clockStep, OF _ _ _ _ _ _ _ _ _ assms(1)])
  show "clockStep s (updateElapsed n s)" for n s
    by (rule clockQuiet_clockStep) (simp add: clockQuiet_def updateElapsed_def timerStarts_def)
  show "clockStep s (s\<lparr>storage := saveProgress (storage s) (level pd) (date pd) (the_state s),
                        saveTimer := False\<rparr>)" for s
    by (rule clockQuiet_clockStep) (simp add: clockQuiet_def timerStarts_def)
qed (auto intro: clockStep_trans cursorMove_clockQuiet [THEN clockQuiet_clockStep]
          revealLetter_clockQuiet [THEN clockQuiet_clockStep]
          revealWord_clockQuiet [THEN clockQuiet_clockStep]
          revealAll_clockQuiet [THEN clockQuiet_clockStep]
          inputLetter_clockStep [OF _ assms(2)])

lemma run_clockStep:
  assumes "run pd evs s = Inr s'" "\<forall>x\<in>set evs. 0 < fst x"
  shows "clockStep s s'"
  using assms
proof (induction evs arbitrary: s)
  case Nil
  then show ?case by simp
next
  case (Cons x xs)
  from Cons.prems(1) obtain s1 where 1: "step pd (fst x) (snd x) s = Inr s1" and 2: "run pd xs s1 = Inr s'"
    by (auto split: sum.splits)
  from step_clockStep [OF 1] Cons.prems(2) have "clockStep s s1" by simp
  moreover from Cons.IH [OF 2] Cons.prems(2) have "clockStep s1 s'" by simp
  ultimately show ?case by (rule clockStep_trans)
qed


subsection \<open>Restoring saved progress\<close>

lemma cellsOnly_fold_setLetter:
  "cellsOnly gr (fold (\<lambda>e g'. setLetter g' (fst (fst e)) (snd (fst e)) (snd e)) es gr)"
proof (induction es arbitrary: gr)
  case Nil
  show ?case by simp
next
  case (Cons e es)
  from cellsOnly_trans [OF cellsOnly_setLetter Cons.IH] show ?case by simp
qed

lemma foldE_markWordCorrect:
  "foldE (\<lambda>i s'. markWordCorrect s' i False) is s = Inr s' \<Longrightarrow>
   the_state s' = the_state s \<and> storage s' = storage s \<and> saveTimer s' = saveTimer s
   \<and> fired s' = fired s @ map (\<lambda>i. WordCorrect i False) is
   \<and> cellsOnly (the_grid s) (the_grid s')"
proof (induction "is" arbitrary: s)
  case Nil
  then show ?case by simp
next
  case (Cons i "is")
  from Cons.prems obtain s1 where 1: "markWordCorrect s i False = Inr s1"
    and 2: "foldE (\<lambda>i s'. markWordCorrect s' i False) is s1 = Inr s'"
    by (auto split: sum.splits)
  from 1 obtain w :: word where
    s1: "s1 = s\<lparr>the_grid := fold (\<lambda>p gr. lockCell gr (fst p) (snd p)) (wcells w) (the_grid s),
                 fired := fired s @ [WordCorrect i False]\<rparr>"
    by (auto simp: markWordCorrect_def split: option.splits)
  have "cellsOnly (the_grid s) (the_grid s1)"
    by (simp add: s1 cellsOnly_fold_lockCell)
  with Cons.IH [OF 2] show ?case
    by (auto simp: s1 intro: cellsOnly_trans)
qed

lemma loadSaved_Inr:
  assumes "loadSaved pd s = Inr s'"
  shows "(progressItems (storage s) (progressKey (level pd) (date pd)) \<in> {None, Some (Garbage [])} \<and> s' = s)
       \<or> (\<exists>saved. progressItems (storage s) (progressKey (level pd) (date pd)) = Some (Json saved)
             \<and> the_state s' = saved \<and> storage s' = storage s \<and> saveTimer s' = saveTimer s
             \<and> fired s' = fired s @ map (\<lambda>i. WordCorrect i False) (correctWords saved)
                             @ [TimerRestore (elapsed saved)]
             \<and> cellsOnly (the_grid s) (the_grid s'))"
proof (cases "loadProgress (storage s) (level pd) (date pd)")
  case (Inl e)
  with assms show ?thesis by (simp add: loadSaved_def)
next
  case (Inr o1)
  show ?thesis
  proof (cases o1)
    case None
    with Inr assms show ?thesis
      by (auto simp: loadSaved_def loadProgress_def split: option.splits blob.splits if_splits)
  next
    case (Some saved)
    with Inr have k: "progressItems (storage s) (progressKey (level pd) (date pd)) = Some (Json saved)"
      by (auto simp: loadProgress_def split: option.splits blob.splits if_splits)
    let ?s0 = "s\<lparr>the_state := saved,
                  the_grid := fold (\<lambda>e gr. setLetter gr (fst (fst e)) (snd (fst e)) (snd e))
                                (letters saved) (the_grid s)\<rparr>"
    from assms Inr Some obtain s1 where
      1: "foldE (\<lambda>i s'. markWordCorrect s' i False) (correctWords saved) ?s0 = Inr s1"
      and 2: "s' = s1\<lparr>fired := fired s1 @ [TimerRestore (elapsed (the_state s1))]\<rparr>"
      by (auto simp: loadSaved_def andThen_Inr)
    from foldE_markWordCorrect [OF 1] 2 k show ?thesis
      by (auto intro: cellsOnly_trans [OF cellsOnly_fold_setLetter])
  qed
qed

lemma createGame_fired:
  assumes "createGame pd gr store0 = Inr s0"
  shows "timerStarts s0 = 0 \<and> completions s0 = 0 \<and> cellsOnly gr (the_grid s0) \<and> storage s0 = store0"
  using loadSaved_Inr [OF assms [unfolded createGame_def]]
  by (auto simp: timerStarts_def completions_def isComplete_def)

text \<open>
  C9, amended. In every session reached from \<open>createGame\<close> by a run of events (with clock
  values above zero), a call of \<open>onLetterInput\<close> at clock value \<open>now\<close>, whatever its letter
  (the empty letter sent by Backspace and Delete included), does the following. If the
  start timestamp is not set, no \<open>onTimerStart\<close> has been sent so far, the call sets the
  timestamp to \<open>now\<close> and sends the first \<open>onTimerStart\<close>. If it is set, at most one
  \<open>onTimerStart\<close> has been sent, and the call leaves the timestamp and the number of
  notifications as they are. So the notification is sent at most once per session, by the
  first letter-input event of a session whose timestamp was not restored, whether or not
  that event enters a letter.
\<close>

theorem clock_starts_on_first_input_event:
  assumes c: "createGame pd gr store0 = Inr s0"
      and r: "run pd evs s0 = Inr s"
      and t: "\<forall>x\<in>set evs. 0 < fst x"
      and i: "onLetterInput pd now row col letter s = Inr s'"
      and n: "0 < now"
  shows "(clockUnset s \<longrightarrow> timerStarts s = 0 \<and> startTime (the_state s') = Some now \<and> timerStarts s' = 1)
       \<and> (\<not> clockUnset s \<longrightarrow> timerStarts s \<le> 1 \<and> startTime (the_state s') = startTime (the_state s)
              \<and> timerStarts s' = timerStarts s)"
proof -
  from createGame_fired [OF c] have 0: "timerStarts s0 = 0" by simp
  from run_clockStep [OF r t] 0
  have 1: "timerStarts s = (if clockUnset s0 \<and> \<not> clockUnset s then 1 else 0)"
    by (simp add: clockStep_def)
  from onLetterInput_clock [OF i n] 1 show ?thesis
    by (auto split: if_splits)
qed

lemma createGame_ex: "createGame exPuzzle (newGrid exPuzzle) emptyStore = Inr exSession"
  by (simp add: createGame_def loadSaved_def loadProgress_def emptyStore_def exSession_def)

lemma atEx_run: "\<not> isl (run exPuzzle evs exSession) \<Longrightarrow> run exPuzzle evs exSession = Inr (atEx evs)"
  by (cases "run exPuzzle evs exSession") (simp_all add: atEx_def)

theorem clock_starts_on_first_input_event_witness:
  "\<exists>s'. onLetterInput exPuzzle 2 0 0 [] (atEx [(1, Focus 0 0)]) = Inr s'
        \<and> startTime (the_state s') = Some 2 \<and> timerStarts s' = 1"
proof -
  have "\<not> isl (run exPuzzle [(1, Focus 0 0)] exSession)"
    by code_simp
  then have r: "run exPuzzle [(1, Focus 0 0)] exSession = Inr (atEx [(1, Focus 0 0)])"
    by (rule atEx_run)
  have t: "\<forall>x\<in>set [(1 :: int, Focus 0 0)]. 0 < fst x" by simp
  have u: "clockUnset (atEx [(1, Focus 0 0)])" by code_simp
  have "\<not> isl (onLetterInput exPuzzle 2 0 0 [] (atEx [(1, Focus 0 0)]))"
    by code_simp
  then obtain s' where i: "onLetterInput exPuzzle 2 0 0 [] (atEx [(1, Focus 0 0)]) = Inr s'"
    by (cases "onLetterInput exPuzzle 2 0 0 [] (atEx [(1, Focus 0 0)])") auto
  from clock_starts_on_first_input_event [OF createGame_ex r t i] u i show ?thesis
    by simp
qed
text \<open>The claim as stated fails: on a fresh session, a Delete key in an empty cell enters
  no letter and yet sets the start timestamp and sends \<open>onTimerStart\<close>.\<close>

theorem erase_starts_clock:
  "startTime (the_state exSession) = None \<and> fired exSession = []
   \<and> letters (the_state (atEx [(7, KeyDown (letterKey ''Delete'') 0 0)])) = []
   \<and> startTime (the_state (atEx [(7, KeyDown (letterKey ''Delete'') 0 0)])) = Some 7
   \<and> fired (atEx [(7, KeyDown (letterKey ''Delete'') 0 0)]) = [TimerStart]"
  by code_simp

subsection \<open>Completion\<close>



lemma completionStep_refl [simp]: "completionStep s s"
  by (simp add: completionStep_def)




lemma checkCompletion_Inr_cases:
  assumes "checkCompletion pd now s = Inr s'"
  shows "(completed (the_state s) \<or> \<not> allValidated s) \<and> s' = s
       \<or> (\<not> completed (the_state s) \<and> allValidated s
           \<and> (\<exists>v store1. statsItem store1 = Some (Json v)
                 \<and> s' = s\<lparr>the_state := (the_state s)\<lparr>completed := True, completedAt := Some now\<rparr>,
                          storage := store1,
                          fired := fired s @ [Complete ((the_state s)\<lparr>completed := True, completedAt := Some now\<rparr>) v]\<rparr>))"
proof (cases "completed (the_state s) \<or> \<not> allValidated s")
  case True
  with assms show ?thesis by (auto simp: checkCompletion_def allValidated_def split: if_splits)
next
  case False
  let ?st = "(the_state s)\<lparr>completed := True, completedAt := Some now\<rparr>"
  from False assms obtain r where
    u: "updateStatsOnComplete (now div 86400000) (saveProgress (storage s) (level pd) (date pd) ?st)
          (level pd) (date pd) (elapsed ?st) (hintsUsed ?st) = Inr r"
    and s': "s' = s\<lparr>the_state := ?st, storage := snd r, fired := fired s @ [Complete ?st (fst r)]\<rparr>"
    by (auto simp: checkCompletion_def allValidated_def Let_def split: sum.splits)
  from u have st: "statsItem (snd r) = Some (Json (fst r))"
    by (auto simp: updateStatsOnComplete_def Let_def saveStats_def split: sum.splits)
  with False s' show ?thesis by blast
qed


















subsection \<open>Hints\<close>

lemma hintStep_refl [simp]: "hintStep s s"
  by (simp add: hintStep_def)








text \<open>Which cells the loop of \<open>revealWord\<close> marks; locks are not touched.\<close>

lemma getCell_set_cell:
  "getCell gr r c = Some old \<Longrightarrow>
   getCell (set_cell gr r c cl) r' c' = (if r' = r \<and> c' = c then Some cl else getCell gr r' c')"
  by (auto simp: getCell_def set_cell_def js_index_def nth_list_update split: option.splits if_splits)

lemma isReadOnly_setLetter [simp]: "isReadOnly (setLetter gr r c l) r' c' = isReadOnly gr r' c'"
  by (auto simp: isReadOnly_def setLetter_def getCell_set_cell split: option.splits)










text \<open>\<open>revealLetter\<close> is not covered by the amended statement: it increments the counter
  without looking at the revealed mark, so revealing the same unlocked cell twice counts
  two hints for one cell.\<close>

lemma revealLetter_counts_twice:
  "hintsAfter (andThen (nav (\<lambda>gr. setActiveCell gr 0 0 None) exSession)
      (\<lambda>s. andThen (revealLetter exPuzzle 1 s) (revealLetter exPuzzle 2))) = Inr 2"
  by code_simp

section \<open>Word building\<close>

subsection \<open>Clue numbers\<close>

lemma set_all_coords: "set (all_coords nr nc) = {(r, c). r < nr \<and> c < nc}"
  by (auto simp: all_coords_def)

lemma fold_number_map:
  "fold (\<lambda>(r, c) m. case pz pd r c of Num v \<Rightarrow> m(v \<mapsto> (int r, int c)) | _ \<Rightarrow> m) cs m n =
     (case filter (\<lambda>p. pz pd (fst p) (snd p) = Num n) cs of
        [] \<Rightarrow> m n
      | xs \<Rightarrow> Some (int (fst (last xs)), int (snd (last xs))))"
proof (induction cs arbitrary: m)
  case Nil
  show ?case by simp
next
  case (Cons p cs)
  obtain r c where p: "p = (r, c)" by (cases p)
  show ?case
    unfolding p
    by (cases "pz pd r c") (auto simp: Cons.IH split: list.splits)
qed

lemma numberToPos_eq:
  "numberToPos pd n =
     (case filter (\<lambda>p. pz pd (fst p) (snd p) = Num n) (all_coords (height pd) (width pd)) of
        [] \<Rightarrow> None
      | xs \<Rightarrow> Some (int (fst (last xs)), int (snd (last xs))))"
  unfolding numberToPos_def by (simp add: fold_number_map)

lemma numberToPos_None: "numberToPos pd n = None \<longleftrightarrow> \<not> labelled pd n"
proof -
  have "filter (\<lambda>p. pz pd (fst p) (snd p) = Num n) (all_coords (height pd) (width pd)) = []
          \<longleftrightarrow> \<not> labelled pd n"
    by (auto simp: filter_empty_conv set_all_coords labelled_def)
  then show ?thesis
    by (auto simp: numberToPos_eq split: list.splits)
qed

lemma numberToPos_Some:
  assumes "numberToPos pd n = Some pos"
  shows "\<exists>r c. pos = (int r, int c) \<and> r < height pd \<and> c < width pd \<and> pz pd r c = Num n"
proof -
  let ?xs = "filter (\<lambda>p. pz pd (fst p) (snd p) = Num n) (all_coords (height pd) (width pd))"
  from assms have ne: "?xs \<noteq> []" and pos: "pos = (int (fst (last ?xs)), int (snd (last ?xs)))"
    by (auto simp: numberToPos_eq split: list.splits)
  from ne have "last ?xs \<in> set ?xs" by (rule last_in_set)
  then have "fst (last ?xs) < height pd \<and> snd (last ?xs) < width pd
               \<and> pz pd (fst (last ?xs)) (snd (last ?xs)) = Num n"
    by (auto simp: set_all_coords)
  with pos show ?thesis by blast
qed

lemma numberToPos_playable:
  assumes "numberToPos pd n = Some pos"
  shows "isPlayable pd (fst pos) (snd pos)"
  using numberToPos_Some [OF assms] by (auto simp: isPlayable_def)

subsection \<open>The walk from a labelled cell\<close>

lemma shiftBy_0 [simp]: "shiftBy d p 0 = p"
  by (simp add: shiftBy_def split: direction.splits)

lemma shiftBy_Suc: "shiftBy d p (Suc j) = shiftBy d (advance d p) j"
  by (simp add: shiftBy_def advance_def split: direction.splits)

lemma walk_run:
  "walk pd d p = map (shiftBy d p) [0..<length (walk pd d p)]
   \<and> (\<forall>q\<in>set (walk pd d p). isPlayable pd (fst q) (snd q))
   \<and> \<not> isPlayable pd (fst (shiftBy d p (length (walk pd d p)))) (snd (shiftBy d p (length (walk pd d p))))"
proof (induction pd d p rule: walk.induct)
  case (1 pd d p)
  show ?case
  proof (cases "isPlayable pd (fst p) (snd p)")
    case False
    then show ?thesis by (simp add: walk.simps [of pd d p])
  next
    case True
    let ?n = "length (walk pd d (advance d p))"
    have w: "walk pd d p = p # walk pd d (advance d p)"
      using True by (simp add: walk.simps [of pd d p])
    have "map (shiftBy d p) [0..<Suc ?n] = shiftBy d p 0 # map (shiftBy d p \<circ> Suc) [0..<?n]"
      by (simp add: upt_conv_Cons map_Suc_upt [symmetric] del: upt_Suc)
    also have "\<dots> = p # map (shiftBy d (advance d p)) [0..<?n]"
      by (simp add: shiftBy_Suc comp_def)
    finally have m: "map (shiftBy d p) [0..<Suc ?n] = p # map (shiftBy d (advance d p)) [0..<?n]" .
    from "1.IH" [OF True] True show ?thesis
      unfolding w by (simp add: m shiftBy_Suc del: upt_Suc)
  qed
qed

lemma inj_shiftBy: "inj (shiftBy d p)"
  by (auto simp: inj_def shiftBy_def split: direction.splits)

lemma walk_distinct: "distinct (walk pd d p)"
proof -
  have "distinct (map (shiftBy d p) [0..<length (walk pd d p)])"
    by (simp add: distinct_map inj_on_def inj_shiftBy [THEN injD])
  with walk_run [of pd d p] show ?thesis by simp
qed

lemma walk_nonempty: "isPlayable pd (fst p) (snd p) \<Longrightarrow> 0 < length (walk pd d p)"
  by (simp add: walk.simps [of pd d p])

lemma walk_in_bounds:
  "q \<in> set (walk pd d p) \<Longrightarrow> 0 \<le> fst q \<and> fst q < int (height pd) \<and> 0 \<le> snd q \<and> snd q < int (width pd)"
  using walk_run [of pd d p] by (auto simp: isPlayable_def split: if_splits)


subsection \<open>The words that are built\<close>

lemma fold_addWord_words:
  "fst (fold (addWord pd d) es acc) = fst acc @ newWords pd d (length (fst acc)) es"
proof (induction es arbitrary: acc)
  case Nil
  show ?case by simp
next
  case (Cons e es)
  show ?case
  proof (cases "numberToPos pd (fst e)")
    case None
    then have "addWord pd d e acc = acc" by (simp add: addWord_def)
    with None show ?thesis by (simp add: Cons.IH)
  next
    case (Some pos)
    then have "addWord pd d e acc =
        (fst acc @ [\<lparr>wid = length (fst acc), wnumber = fst e, wdirection = d,
                       wcells = walk pd d pos, wclue = snd e\<rparr>],
         fold (set_cw d (length (fst acc))) (walk pd d pos) (snd acc))"
      by (simp add: addWord_def Let_def)
    with Some show ?thesis by (simp add: Cons.IH)
  qed
qed

lemma newWords_clues:
  "map (\<lambda>w. (wdirection w, wnumber w, wclue w)) (newWords pd d i es)
     = map (\<lambda>e. (d, fst e, snd e)) (filter (\<lambda>e. labelled pd (fst e)) es)"
proof (induction es arbitrary: i)
  case Nil
  show ?case by simp
next
  case (Cons e es)
  show ?case
    by (cases "numberToPos pd (fst e)")
       (use numberToPos_None [of pd "fst e"] in \<open>auto simp: Cons.IH\<close>)
qed

lemma newWords_nth:
  "k < length (newWords pd d i es) \<Longrightarrow>
   wid (newWords pd d i es ! k) = i + k \<and> wdirection (newWords pd d i es ! k) = d
   \<and> (\<exists>pos. numberToPos pd (wnumber (newWords pd d i es ! k)) = Some pos
          \<and> wcells (newWords pd d i es ! k) = walk pd d pos)"
proof (induction es arbitrary: i k)
  case Nil
  then show ?case by simp
next
  case (Cons e es)
  show ?case
  proof (cases "numberToPos pd (fst e)")
    case None
    with Cons show ?thesis by simp
  next
    case (Some pos)
    show ?thesis
    proof (cases k)
      case 0
      with Some show ?thesis by simp
    next
      case (Suc k')
      with Some Cons.prems have "k' < length (newWords pd d (Suc i) es)" by simp
      from Cons.IH [OF this] Some Suc show ?thesis by simp
    qed
  qed
qed

lemma buildWords_words:
  "fst (buildWords pd) =
     newWords pd Across 0 (cluesAcross pd)
       @ newWords pd Down (length (newWords pd Across 0 (cluesAcross pd))) (cluesDown pd)"
  by (simp add: buildWords_def fold_addWord_words)

lemma buildWords_nth:
  assumes "i < length (fst (buildWords pd))"
  shows "wid (fst (buildWords pd) ! i) = i
       \<and> (\<exists>pos. numberToPos pd (wnumber (fst (buildWords pd) ! i)) = Some pos
              \<and> wcells (fst (buildWords pd) ! i) = walk pd (wdirection (fst (buildWords pd) ! i)) pos)"
proof -
  let ?A = "newWords pd Across 0 (cluesAcross pd)"
  let ?D = "newWords pd Down (length ?A) (cluesDown pd)"
  show ?thesis
  proof (cases "i < length ?A")
    case True
    from newWords_nth [OF True] True show ?thesis
      by (simp add: buildWords_words nth_append)
  next
    case False
    with assms have "i - length ?A < length ?D"
      by (simp add: buildWords_words)
    from newWords_nth [OF this] False show ?thesis
      by (simp add: buildWords_words nth_append)
  qed
qed

subsection \<open>The cell-to-word index\<close>

lemma cw_get_cw_set: "cw_get (cw_set d i e) d' = (if d' = d then Some i else cw_get e d')"
  by (simp add: cw_get_def cw_set_def split: direction.splits)

lemma set_cw_lookup:
  assumes "length m = h" "\<forall>row\<in>set m. length row = w"
    and "0 \<le> fst p" "fst p < int h" "0 \<le> snd p" "snd p < int w"
  shows "length (set_cw d i p m) = h \<and> (\<forall>row\<in>set (set_cw d i p m). length row = w)
       \<and> (\<forall>r<h. \<forall>c<w. set_cw d i p m ! r ! c
              = (if int r = fst p \<and> int c = snd p then cw_set d i (m ! r ! c) else m ! r ! c))"
proof (intro conjI allI impI ballI)
  show "length (set_cw d i p m) = h" using assms(1) by (simp add: set_cw_def)
next
  fix row assume "row \<in> set (set_cw d i p m)"
  then have "row \<in> insert ((m ! nat (fst p))[nat (snd p) := cw_set d i (m ! nat (fst p) ! nat (snd p))]) (set m)"
    unfolding set_cw_def using set_update_subset_insert by fastforce
  moreover have "m ! nat (fst p) \<in> set m" using assms(1,3,4) by simp
  ultimately show "length row = w" using assms(2) by auto
next
  fix r c assume "r < h" "c < w"
  moreover have "length (m ! nat (fst p)) = w" using assms(1-4) by simp
  ultimately show "set_cw d i p m ! r ! c
              = (if int r = fst p \<and> int c = snd p then cw_set d i (m ! r ! c) else m ! r ! c)"
    using assms by (auto simp: set_cw_def nth_list_update)
qed

lemma fold_set_cw_lookup:
  assumes "length m = h" "\<forall>row\<in>set m. length row = w"
    and "\<forall>p\<in>set ps. 0 \<le> fst p \<and> fst p < int h \<and> 0 \<le> snd p \<and> snd p < int w"
  shows "length (fold (set_cw d i) ps m) = h \<and> (\<forall>row\<in>set (fold (set_cw d i) ps m). length row = w)
       \<and> (\<forall>r<h. \<forall>c<w. \<forall>d'. cw_get (fold (set_cw d i) ps m ! r ! c) d'
              = (if d' = d \<and> (int r, int c) \<in> set ps then Some i else cw_get (m ! r ! c) d'))"
  using assms
proof (induction ps arbitrary: m)
  case Nil
  then show ?case by simp
next
  case (Cons p ps)
  from Cons.prems(3) have p: "0 \<le> fst p" "fst p < int h" "0 \<le> snd p" "snd p < int w" by simp_all
  note s = set_cw_lookup [OF Cons.prems(1,2) p, of d i]
  from Cons.prems(3) have rest: "\<forall>p\<in>set ps. 0 \<le> fst p \<and> fst p < int h \<and> 0 \<le> snd p \<and> snd p < int w"
    by simp
  from s have s1: "length (set_cw d i p m) = h" and s2: "\<forall>row\<in>set (set_cw d i p m). length row = w"
    by blast+
  note ih = Cons.IH [OF s1 s2 rest]
  show ?case
  proof (intro conjI allI impI)
    show "length (fold (set_cw d i) (p # ps) m) = h" using ih by simp
    show "\<forall>row\<in>set (fold (set_cw d i) (p # ps) m). length row = w" using ih by simp
  next
    fix r c d' assume rc: "r < h" "c < w"
    from ih rc have "cw_get (fold (set_cw d i) (p # ps) m ! r ! c) d'
          = (if d' = d \<and> (int r, int c) \<in> set ps then Some i else cw_get (set_cw d i p m ! r ! c) d')"
      by simp
    moreover from s rc have "set_cw d i p m ! r ! c
          = (if int r = fst p \<and> int c = snd p then cw_set d i (m ! r ! c) else m ! r ! c)"
      by blast
    ultimately show "cw_get (fold (set_cw d i) (p # ps) m ! r ! c) d'
          = (if d' = d \<and> (int r, int c) \<in> set (p # ps) then Some i else cw_get (m ! r ! c) d')"
      by (cases p) (auto simp: cw_get_cw_set)
  qed
qed

lemma matching_snoc:
  "matching (ws @ [w]) d p =
     matching ws d p @ (if wdirection w = d \<and> p \<in> set (wcells w) then [length ws] else [])"
proof -
  have "filter (\<lambda>j. wdirection ((ws @ [w]) ! j) = d \<and> p \<in> set (wcells ((ws @ [w]) ! j))) [0..<length ws]
          = filter (\<lambda>j. wdirection (ws ! j) = d \<and> p \<in> set (wcells (ws ! j))) [0..<length ws]"
    by (rule filter_cong) (auto simp: nth_append)
  then show ?thesis
    by (simp add: matching_def)
qed

lemma lastMatching_snoc:
  "lastMatching (ws @ [w]) d p =
     (if wdirection w = d \<and> p \<in> set (wcells w) then Some (length ws) else lastMatching ws d p)"
  by (simp add: lastMatching_def matching_snoc)

lemma addWord_ok:
  assumes "c2w_ok pd acc"
  shows "c2w_ok pd (addWord pd d e acc)"
proof (cases "numberToPos pd (fst e)")
  case None
  with assms show ?thesis by (simp add: addWord_def)
next
  case (Some pos)
  let ?w = "\<lparr>wid = length (fst acc), wnumber = fst e, wdirection = d, wcells = walk pd d pos, wclue = snd e\<rparr>"
  from assms have sh: "length (snd acc) = height pd" "\<forall>row\<in>set (snd acc). length row = width pd"
    and look: "\<forall>r<height pd. \<forall>c<width pd. \<forall>d. cw_get (snd acc ! r ! c) d = lastMatching (fst acc) d (int r, int c)"
    by (simp_all add: c2w_ok_def)
  have inb: "\<forall>p\<in>set (walk pd d pos). 0 \<le> fst p \<and> fst p < int (height pd) \<and> 0 \<le> snd p \<and> snd p < int (width pd)"
    using walk_in_bounds by blast
  note f = fold_set_cw_lookup [OF sh inb, of d "length (fst acc)"]
  have a: "addWord pd d e acc = (fst acc @ [?w], fold (set_cw d (length (fst acc))) (walk pd d pos) (snd acc))"
    using Some by (simp add: addWord_def Let_def)
  show ?thesis
    unfolding a c2w_ok_def using f look by (simp add: lastMatching_snoc)
qed

lemma fold_addWord_ok: "c2w_ok pd acc \<Longrightarrow> c2w_ok pd (fold (addWord pd d) es acc)"
  by (induction es arbitrary: acc) (simp_all add: addWord_ok)

lemma buildWords_ok: "c2w_ok pd (buildWords pd)"
proof -
  have "c2w_ok pd ([], replicate (height pd) (replicate (width pd) \<lparr>across = None, down = None\<rparr>))"
    by (auto simp: c2w_ok_def lastMatching_def matching_def cw_get_def split: direction.splits)
  then show ?thesis
    unfolding buildWords_def by (intro fold_addWord_ok)
qed


lemma sorted_le_last: "sorted xs \<Longrightarrow> x \<in> set xs \<Longrightarrow> x \<le> last (xs :: nat list)"
  by (induction xs) auto

lemma matching_props:
  "set (matching ws d p) = {j. j < length ws \<and> wdirection (ws ! j) = d \<and> p \<in> set (wcells (ws ! j))}"
  "sorted (matching ws d p)"
  by (auto simp: matching_def sorted_wrt_filter)

lemma lastMatching_Some_iff:
  "lastMatching ws d p = Some i \<longleftrightarrow>
     i < length ws \<and> wdirection (ws ! i) = d \<and> p \<in> set (wcells (ws ! i))
     \<and> (\<forall>j. i < j \<and> j < length ws \<and> wdirection (ws ! j) = d \<longrightarrow> p \<notin> set (wcells (ws ! j)))"
  (is "?L \<longleftrightarrow> ?R")
proof
  assume ?L
  then have ne: "matching ws d p \<noteq> []" and i: "i = last (matching ws d p)"
    by (auto simp: lastMatching_def split: if_splits)
  from ne have "last (matching ws d p) \<in> set (matching ws d p)" by (rule last_in_set)
  moreover have "j \<le> last (matching ws d p)" if "j \<in> set (matching ws d p)" for j
    using sorted_le_last [OF matching_props(2) that] .
  ultimately show ?R
    unfolding i matching_props(1) by (auto simp: not_less [symmetric])
next
  assume r: ?R
  then have mem: "i \<in> set (matching ws d p)" by (simp add: matching_props(1))
  then have ne: "matching ws d p \<noteq> []" by auto
  from ne have "last (matching ws d p) \<in> set (matching ws d p)" by (rule last_in_set)
  then have "last (matching ws d p) \<le> i"
    using r unfolding matching_props(1) by (auto simp: not_less [symmetric])
  moreover have "i \<le> last (matching ws d p)"
    using sorted_le_last [OF matching_props(2) mem] .
  ultimately show ?L using ne by (simp add: lastMatching_def)
qed

lemma lastMatching_None_iff:
  "lastMatching ws d p = None \<longleftrightarrow>
     \<not> (\<exists>i<length ws. wdirection (ws ! i) = d \<and> p \<in> set (wcells (ws ! i)))"
proof -
  have "matching ws d p = [] \<longleftrightarrow> set (matching ws d p) = {}" by simp
  then show ?thesis
    unfolding lastMatching_def matching_props(1) by auto
qed

lemma buildWords_cells_in_bounds:
  assumes "i < length (fst (buildWords pd))" "q \<in> set (wcells (fst (buildWords pd) ! i))"
  shows "0 \<le> fst q \<and> fst q < int (height pd) \<and> 0 \<le> snd q \<and> snd q < int (width pd)"
proof -
  from buildWords_nth [OF assms(1)] obtain pos where
    "wcells (fst (buildWords pd) ! i) = walk pd (wdirection (fst (buildWords pd) ! i)) pos"
    by auto
  with assms(2) show ?thesis by (simp add: walk_in_bounds)
qed

lemma wordAt_newGrid: "wordAt (newGrid pd) d r c = lastMatching (words (newGrid pd)) d (r, c)"
proof (cases "0 \<le> r \<and> r < int (height pd) \<and> 0 \<le> c \<and> c < int (width pd)")
  case True
  from buildWords_ok [of pd] have sh: "length (snd (buildWords pd)) = height pd"
      "\<forall>row\<in>set (snd (buildWords pd)). length row = width pd"
    and look: "\<forall>r<height pd. \<forall>c<width pd. \<forall>d.
        cw_get (snd (buildWords pd) ! r ! c) d = lastMatching (fst (buildWords pd)) d (int r, int c)"
    by (simp_all add: c2w_ok_def)
  from True sh have "nat r < length (snd (buildWords pd))" by (simp add: nat_less_iff)
  then have "snd (buildWords pd) ! nat r \<in> set (snd (buildWords pd))" by (rule nth_mem)
  with sh have "length (snd (buildWords pd) ! nat r) = width pd" by simp
  with True sh have "cellToWordsAt (newGrid pd) r c = Some (snd (buildWords pd) ! nat r ! nat c)"
    by (simp add: cellToWordsAt_def js_index_def newGrid_def)
  moreover from look True
  have "cw_get (snd (buildWords pd) ! nat r ! nat c) d = lastMatching (fst (buildWords pd)) d (r, c)"
    by (metis int_nat_eq nat_less_iff)
  ultimately show ?thesis by (simp add: wordAt_def newGrid_def)
next
  case False
  from buildWords_ok [of pd] have sh: "length (snd (buildWords pd)) = height pd"
      "\<forall>row\<in>set (snd (buildWords pd)). length row = width pd"
    by (simp_all add: c2w_ok_def)
  have "cellToWordsAt (newGrid pd) r c = None"
  proof (cases "0 \<le> r \<and> r < int (height pd)")
    case True
    with sh have "nat r < length (snd (buildWords pd))" by (simp add: nat_less_iff)
    then have "snd (buildWords pd) ! nat r \<in> set (snd (buildWords pd))" by (rule nth_mem)
    with sh have "length (snd (buildWords pd) ! nat r) = width pd" by simp
    with True False sh show ?thesis
      by (auto simp: cellToWordsAt_def js_index_def newGrid_def)
  next
    case False
    with sh show ?thesis
      by (auto simp: cellToWordsAt_def js_index_def newGrid_def)
  qed
  moreover have "lastMatching (fst (buildWords pd)) d (r, c) = None"
    unfolding lastMatching_None_iff using buildWords_cells_in_bounds [of _ pd "(r, c)"] False by auto
  ultimately show ?thesis by (simp add: wordAt_def newGrid_def)
qed

text \<open>C3, amended. Where \<open>createGrid\<close> returns a grid: its words are, in order, one
  word for each Across clue and then one for each Down clue whose number labels a cell of
  the grid, with the number and the text of the clue, and the clues whose number labels no
  cell are skipped; the id of a word is its position in the list; the cells of a word are a
  non-empty contiguous run of playable cells of the grid that starts at a cell labelled with
  the number of the clue, goes rightward (Across) or downward (Down), and ends where the next
  cell is black or outside the grid. The entry of the cell-to-word index for a cell and a
  direction is the id \<open>i\<close> exactly when word \<open>i\<close> is the last word of that direction
  whose cells contain the cell; so the entry is non-absent if and only if the cell lies in
  the cells of some word of that direction, and it names that word whenever no later word of
  the same direction runs over the cell too.\<close>

theorem buildWords_spec:
  assumes "createGrid pd = Inr gr"
  shows "map (\<lambda>w. (wdirection w, wnumber w, wclue w)) (words gr)
           = map (\<lambda>e. (Across, fst e, snd e)) (filter (\<lambda>e. labelled pd (fst e)) (cluesAcross pd))
             @ map (\<lambda>e. (Down, fst e, snd e)) (filter (\<lambda>e. labelled pd (fst e)) (cluesDown pd))
       \<and> (\<forall>i<length (words gr). wid (words gr ! i) = i
            \<and> (\<exists>r c k. r < height pd \<and> c < width pd \<and> pz pd r c = Num (wnumber (words gr ! i)) \<and> 0 < k
                 \<and> wcells (words gr ! i) = map (shiftBy (wdirection (words gr ! i)) (int r, int c)) [0..<k]
                 \<and> (\<forall>q\<in>set (wcells (words gr ! i)). isPlayable pd (fst q) (snd q))
                 \<and> \<not> isPlayable pd (fst (shiftBy (wdirection (words gr ! i)) (int r, int c) k))
                                  (snd (shiftBy (wdirection (words gr ! i)) (int r, int c) k))))
       \<and> (\<forall>d r c i. wordAt gr d r c = Some i \<longleftrightarrow>
              i < length (words gr) \<and> wdirection (words gr ! i) = d \<and> (r, c) \<in> set (wcells (words gr ! i))
              \<and> (\<forall>j. i < j \<and> j < length (words gr) \<and> wdirection (words gr ! j) = d
                      \<longrightarrow> (r, c) \<notin> set (wcells (words gr ! j))))
       \<and> (\<forall>d r c. wordAt gr d r c \<noteq> None \<longleftrightarrow>
              (\<exists>i<length (words gr). wdirection (words gr ! i) = d \<and> (r, c) \<in> set (wcells (words gr ! i))))"
proof -
  from assms have gr: "gr = newGrid pd"
    by (auto simp: createGrid_def split: if_splits)
  have w: "words gr = fst (buildWords pd)" by (simp add: gr newGrid_def)
  have 1: "map (\<lambda>w. (wdirection w, wnumber w, wclue w)) (words gr)
           = map (\<lambda>e. (Across, fst e, snd e)) (filter (\<lambda>e. labelled pd (fst e)) (cluesAcross pd))
             @ map (\<lambda>e. (Down, fst e, snd e)) (filter (\<lambda>e. labelled pd (fst e)) (cluesDown pd))"
    by (simp add: w buildWords_words newWords_clues)
  have 2: "wid (words gr ! i) = i
            \<and> (\<exists>r c k. r < height pd \<and> c < width pd \<and> pz pd r c = Num (wnumber (words gr ! i)) \<and> 0 < k
                 \<and> wcells (words gr ! i) = map (shiftBy (wdirection (words gr ! i)) (int r, int c)) [0..<k]
                 \<and> (\<forall>q\<in>set (wcells (words gr ! i)). isPlayable pd (fst q) (snd q))
                 \<and> \<not> isPlayable pd (fst (shiftBy (wdirection (words gr ! i)) (int r, int c) k))
                                  (snd (shiftBy (wdirection (words gr ! i)) (int r, int c) k)))"
    if "i < length (words gr)" for i
  proof -
    let ?w = "words gr ! i"
    from buildWords_nth [of i pd] that obtain pos where
      id: "wid ?w = i" and pos: "numberToPos pd (wnumber ?w) = Some pos"
      and cells: "wcells ?w = walk pd (wdirection ?w) pos"
      by (auto simp: w)
    from numberToPos_Some [OF pos] obtain r c where
      rc: "pos = (int r, int c)" "r < height pd" "c < width pd" "pz pd r c = Num (wnumber ?w)"
      by blast
    let ?k = "length (walk pd (wdirection ?w) pos)"
    from numberToPos_playable [OF pos] have k: "0 < ?k" by (rule walk_nonempty)
    from walk_run [of pd "wdirection ?w" pos] cells rc k id show ?thesis
      by (intro conjI exI [of _ r] exI [of _ c] exI [of _ ?k]) simp_all
  qed
  have 3: "wordAt gr d r c = Some i \<longleftrightarrow>
              i < length (words gr) \<and> wdirection (words gr ! i) = d \<and> (r, c) \<in> set (wcells (words gr ! i))
              \<and> (\<forall>j. i < j \<and> j < length (words gr) \<and> wdirection (words gr ! j) = d
                      \<longrightarrow> (r, c) \<notin> set (wcells (words gr ! j)))" for d r c i
    unfolding gr wordAt_newGrid by (rule lastMatching_Some_iff)
  have 4: "wordAt gr d r c \<noteq> None \<longleftrightarrow>
              (\<exists>i<length (words gr). wdirection (words gr ! i) = d \<and> (r, c) \<in> set (wcells (words gr ! i)))"
    for d r c
    unfolding gr wordAt_newGrid by (auto simp: lastMatching_None_iff)
  from 1 2 3 4 show ?thesis by blast
qed


theorem buildWords_spec_witness:
  "createGrid exPuzzle = Inr (newGrid exPuzzle)
   \<and> map (\<lambda>w. (wdirection w, wnumber w, wclue w)) (words (newGrid exPuzzle))
        = [(Across, 1, ''first row''), (Down, 1, ''first column''), (Down, 2, ''second column'')]
   \<and> wid (words (newGrid exPuzzle) ! 2) = 2
   \<and> wordAt (newGrid exPuzzle) Down 0 1 = Some 2
   \<and> wordAt (newGrid exPuzzle) Across 0 1 = Some 0
   \<and> wordAt (newGrid exPuzzle) Across 1 0 = None"
proof -
  have cg: "createGrid exPuzzle = Inr (newGrid exPuzzle)"
    by (simp add: createGrid_def exPuzzle_def)
  note s = buildWords_spec [OF cg]
  have f: "filter (\<lambda>e. labelled exPuzzle (fst e)) (cluesAcross exPuzzle) = [(1, ''first row'')]"
    "filter (\<lambda>e. labelled exPuzzle (fst e)) (cluesDown exPuzzle)
       = [(1, ''first column''), (2, ''second column'')]"
    by code_simp+
  have l: "length (words (newGrid exPuzzle)) = 3" by (simp add: words_ex)
  from s have 1: "map (\<lambda>w. (wdirection w, wnumber w, wclue w)) (words (newGrid exPuzzle))
        = [(Across, 1, ''first row''), (Down, 1, ''first column''), (Down, 2, ''second column'')]"
    unfolding f by simp
  from s l have 2: "wid (words (newGrid exPuzzle) ! 2) = 2" by simp
  from s have "wordAt (newGrid exPuzzle) Down 0 1 = Some 2 \<longleftrightarrow>
      2 < length (words (newGrid exPuzzle)) \<and> wdirection (words (newGrid exPuzzle) ! 2) = Down
      \<and> (0, 1) \<in> set (wcells (words (newGrid exPuzzle) ! 2))
      \<and> (\<forall>j. 2 < j \<and> j < length (words (newGrid exPuzzle)) \<and> wdirection (words (newGrid exPuzzle) ! j) = Down
              \<longrightarrow> (0, 1) \<notin> set (wcells (words (newGrid exPuzzle) ! j)))"
    by blast
  then have 3: "wordAt (newGrid exPuzzle) Down 0 1 = Some 2"
    unfolding l by (simp add: words_ex)
  from s have "wordAt (newGrid exPuzzle) Across 0 1 = Some 0 \<longleftrightarrow>
      0 < length (words (newGrid exPuzzle)) \<and> wdirection (words (newGrid exPuzzle) ! 0) = Across
      \<and> (0, 1) \<in> set (wcells (words (newGrid exPuzzle) ! 0))
      \<and> (\<forall>j. 0 < j \<and> j < length (words (newGrid exPuzzle)) \<and> wdirection (words (newGrid exPuzzle) ! j) = Across
              \<longrightarrow> (0, 1) \<notin> set (wcells (words (newGrid exPuzzle) ! j)))"
    by blast
  then have 4: "wordAt (newGrid exPuzzle) Across 0 1 = Some 0"
    unfolding l by (auto simp: words_ex less_Suc_eq numeral_3_eq_3)
  from s have "wordAt (newGrid exPuzzle) Across 1 0 \<noteq> None \<longleftrightarrow>
      (\<exists>i<length (words (newGrid exPuzzle)). wdirection (words (newGrid exPuzzle) ! i) = Across
          \<and> (1, 0) \<in> set (wcells (words (newGrid exPuzzle) ! i)))"
    by blast
  then have 5: "wordAt (newGrid exPuzzle) Across 1 0 = None"
    unfolding l by (auto simp: words_ex less_Suc_eq numeral_3_eq_3)
  show ?thesis using cg 1 2 3 4 5 by simp
qed

text \<open>The claim as stated fails where two words of one direction overlap. In
  \<open>overlapPuzzle\<close> the cell in column 1 lies in the cells of word 0 (clue 1 Across, both
  cells), yet its Across entry is word 1 (clue 2 Across), which was built later and
  overwrote the entry.\<close>

theorem overlap_index:
  "(0, 1) \<in> set (wcells (words (newGrid overlapPuzzle) ! 0))
   \<and> wdirection (words (newGrid overlapPuzzle) ! 0) = Across
   \<and> isPlayable overlapPuzzle 0 1
   \<and> wordAt (newGrid overlapPuzzle) Across 0 1 = Some 1"
  by code_simp

section \<open>The active direction\<close>

lemma setActiveCell_supported:
  assumes "setActiveCell gr r c dir = Inr gr'" "cellToWordsAt gr r c = Some e"
  shows "activeRow gr' = r \<and> activeCol gr' = c \<and> cellToWordsAt gr' r c = Some e
         \<and> (cw_get e (activeDirection gr') \<noteq> None \<or> (across e = None \<and> down e = None))"
  using assms
  by (cases "case dir of Some d \<Rightarrow> d | None \<Rightarrow> activeDirection gr")
     (auto simp: setActiveCell_def Let_def cellToWordsAt_def cw_get_def flip_def
           split: option.splits if_splits direction.splits)

lemma toggleDirection_supported:
  assumes "toggleDirection gr = Inr gr'"
    "cellToWordsAt gr (activeRow gr) (activeCol gr) = Some e"
  shows "activeRow gr' = activeRow gr \<and> activeCol gr' = activeCol gr
         \<and> cellToWordsAt gr' (activeRow gr) (activeCol gr) = Some e
         \<and> (if cw_get e (flip (activeDirection gr)) \<noteq> None
             then activeDirection gr' = flip (activeDirection gr)
             else activeDirection gr' = activeDirection gr)"
  using assms
  by (cases "activeDirection gr")
     (auto simp: toggleDirection_def setActiveCell_def Let_def cellToWordsAt_def cw_get_def flip_def
           split: option.splits if_splits direction.splits)

text \<open>C8. On a cell that supports neither direction \<open>setActiveCell\<close> does not leave the
  active direction unchanged: it flips it. In \<open>isoPuzzle\<close> the only cell is playable and
  belongs to no word; the grid starts with direction Across, and selecting the cell leaves
  Down, also when \<open>focusFirstCell\<close> selects it with the direction Across, as it does when
  the page loads; selecting it once more leaves Across. \<open>toggleDirection\<close> does leave the
  direction of such a cell unchanged, and on every other cell both operations leave a
  direction that the cell supports (\<open>setActiveCell_supported\<close>,
  \<open>toggleDirection_supported\<close>).\<close>

theorem isolated_cell_flips:
  "cellToWordsAt (newGrid isoPuzzle) 0 0 = Some \<lparr>across = None, down = None\<rparr>
   \<and> activeDirection (newGrid isoPuzzle) = Across
   \<and> directionAfter (setActiveCell (newGrid isoPuzzle) 0 0 None) = Inr Down
   \<and> directionAfter (focusFirstCell (newGrid isoPuzzle)) = Inr Down
   \<and> directionAfter (case setActiveCell (newGrid isoPuzzle) 0 0 None of
         Inl e \<Rightarrow> Inl e | Inr gr \<Rightarrow> setActiveCell gr 0 0 None) = Inr Across"
  by code_simp

section \<open>Validation and the normalisation of keys\<close>

lemma normalizeKey_lo:
  fixes ch :: char
  assumes n: "of_char ch = (n::nat)" and r: "(97 \<le> n \<and> n \<le> 122) \<or> (65 \<le> n \<and> n \<le> 90)"
  shows "normalizeKey ch \<noteq> [] \<and> list_all isNormalForm (normalizeKey ch)"
proof -
  from r consider (small) "97 \<le> n \<and> n \<le> 122" | (capital) "65 \<le> n \<and> n \<le> 90"
    by blast
  then show ?thesis
  proof cases
    case small
    then have "n - 32 < 256" by arith
    then have m: "(n - 32) mod 256 = n - 32" by (rule mod_less)
    from small n have "normalizeKey ch = [char_of (n - 32)]"
      by (simp add: normalizeKey_def stripDiacritic_def toUpperCase_def Let_def)
    moreover from small have "65 \<le> n - 32 \<and> n - 32 \<le> 90" by arith
    ultimately show ?thesis
      by (simp add: isNormalForm_def Let_def m)
  next
    case capital
    with n show ?thesis
      by (simp add: normalizeKey_def stripDiacritic_def toUpperCase_def isNormalForm_def Let_def)
  qed
qed

lemma normalizeKey_b192:
  fixes ch :: char
  assumes n: "of_char ch = (n::nat)" and r: "192 \<le> n \<and> n \<le> 207"
  shows "normalizeKey ch \<noteq> [] \<and> list_all isNormalForm (normalizeKey ch)"
proof -
  from r consider (c192) "192 \<le> n \<and> n \<le> 197" | (c198) "n = 198" | (c199) "n = 199" | (c200) "200 \<le> n \<and> n \<le> 203" | (c204) "204 \<le> n \<and> n \<le> 207"
    by arith
  then show ?thesis
    using n
    by cases
      (simp_all add: normalizeKey_def stripDiacritic_def toUpperCase_def isNormalForm_def Let_def)
qed

lemma normalizeKey_b208:
  fixes ch :: char
  assumes n: "of_char ch = (n::nat)" and r: "208 \<le> n \<and> n \<le> 223"
  shows "normalizeKey ch \<noteq> [] \<and> list_all isNormalForm (normalizeKey ch)"
proof -
  from r consider (c208) "n = 208" | (c209) "n = 209" | (c210) "210 \<le> n \<and> n \<le> 214" | (c215) "n = 215" | (c216) "n = 216" | (c217) "217 \<le> n \<and> n \<le> 220" | (c221) "n = 221" | (c222) "n = 222" | (c223) "n = 223"
    by arith
  then show ?thesis
    using n
    by cases
      (simp_all add: normalizeKey_def stripDiacritic_def toUpperCase_def isNormalForm_def Let_def)
qed

lemma normalizeKey_b224:
  fixes ch :: char
  assumes n: "of_char ch = (n::nat)" and r: "224 \<le> n \<and> n \<le> 239"
  shows "normalizeKey ch \<noteq> [] \<and> list_all isNormalForm (normalizeKey ch)"
proof -
  from r consider (c224) "224 \<le> n \<and> n \<le> 229" | (c230) "n = 230" | (c231) "n = 231" | (c232) "232 \<le> n \<and> n \<le> 235" | (c236) "236 \<le> n \<and> n \<le> 239"
    by arith
  then show ?thesis
    using n
    by cases
      (simp_all add: normalizeKey_def stripDiacritic_def toUpperCase_def isNormalForm_def Let_def)
qed

lemma normalizeKey_b240:
  fixes ch :: char
  assumes n: "of_char ch = (n::nat)" and r: "240 \<le> n \<and> n \<le> 255"
  shows "normalizeKey ch \<noteq> [] \<and> list_all isNormalForm (normalizeKey ch)"
proof -
  from r consider (c240) "n = 240" | (c241) "n = 241" | (c242) "242 \<le> n \<and> n \<le> 246" | (c247) "n = 247" | (c248) "n = 248" | (c249) "249 \<le> n \<and> n \<le> 252" | (c253) "n = 253" | (c254) "n = 254" | (c255) "n = 255"
    by arith
  then show ?thesis
    using n
    by cases
      (simp_all add: normalizeKey_def stripDiacritic_def toUpperCase_def isNormalForm_def Let_def)
qed

lemma normalizeKey_normal:
  assumes "isLetterKey ch"
  shows "normalizeKey ch \<noteq> [] \<and> list_all isNormalForm (normalizeKey ch)"
proof -
  define n where "n = (of_char ch :: nat)"
  have n: "of_char ch = n" by (simp add: n_def)
  have "n < 256" by (simp add: n_def)
  moreover from assms have "(97 \<le> n \<and> n \<le> 122) \<or> (65 \<le> n \<and> n \<le> 90) \<or> (192 \<le> n \<and> n \<le> 255)"
    by (simp add: isLetterKey_def n_def Let_def)
  ultimately consider "(97 \<le> n \<and> n \<le> 122) \<or> (65 \<le> n \<and> n \<le> 90)"
    | "192 \<le> n \<and> n \<le> 207" | "208 \<le> n \<and> n \<le> 223" | "224 \<le> n \<and> n \<le> 239"
    | "240 \<le> n \<and> n \<le> 255"
    by arith
  then show ?thesis
    by cases
      (rule normalizeKey_lo [OF n] normalizeKey_b192 [OF n] normalizeKey_b208 [OF n]
            normalizeKey_b224 [OF n] normalizeKey_b240 [OF n], assumption)+
qed


lemma getLetter_lockCell [simp]: "getLetter (lockCell gr r c) r' c' = getLetter gr r' c'"
  by (auto simp: getLetter_def lockCell_def getCell_set_cell split: option.splits)

lemma getLetter_fold_lockCell [simp]:
  "getLetter (fold (\<lambda>p g'. lockCell g' (fst p) (snd p)) ps gr) r c = getLetter gr r c"
  by (induction ps arbitrary: gr) simp_all

lemma checkWord_letters:
  assumes "checkWord pd now i s = Inr s'"
  shows "getLetter (the_grid s') r c = getLetter (the_grid s) r c"
proof (cases "s' = s")
  case True
  then show ?thesis by simp
next
  case False
  let ?s1 = "s\<lparr>the_state := (the_state s)\<lparr>correctWords := correctWords (the_state s) @ [i]\<rparr>\<rparr>"
  from False assms obtain s2 where
    m: "markWordCorrect ?s1 i True = Inr s2" and c: "checkCompletion pd now s2 = Inr s'"
    by (auto simp: checkWord_def andThen_Inr split: if_splits option.splits sum.splits)
  from m have "getLetter (the_grid s2) r c = getLetter (the_grid s) r c"
    by (auto simp: markWordCorrect_def split: option.splits)
  moreover from checkCompletion_Inr_cases [OF c] have "the_grid s' = the_grid s2" by auto
  ultimately show ?thesis by simp
qed

lemma checkCellWords_letters:
  assumes "checkCellWords pd now r c s = Inr s'"
  shows "getLetter (the_grid s') r' c' = getLetter (the_grid s) r' c'"
proof (cases "cellToWordsAt (the_grid s) r c")
  case None
  with assms show ?thesis by (simp add: checkCellWords_def)
next
  case (Some e)
  with assms obtain s1 where
    1: "(case across e of None \<Rightarrow> Inr s | Some i \<Rightarrow> checkWord pd now i s) = Inr s1"
    and 2: "(case down e of None \<Rightarrow> Inr s1 | Some i \<Rightarrow> checkWord pd now i s1) = Inr s'"
    by (auto simp: checkCellWords_def andThen_Inr)
  from 1 have "getLetter (the_grid s1) r' c' = getLetter (the_grid s) r' c'"
    by (auto split: option.splits dest: checkWord_letters)
  moreover from 2 have "getLetter (the_grid s') r' c' = getLetter (the_grid s1) r' c'"
    by (auto split: option.splits dest: checkWord_letters)
  ultimately show ?thesis by simp
qed

lemma onLetterInput_letters:
  assumes "onLetterInput pd now r c l s = Inr s'"
  shows "getLetter (the_grid s') r' c' = getLetter (the_grid s) r' c'"
proof -
  let ?s1 = "if startTime (the_state s) = None \<or> startTime (the_state s) = Some 0
             then s\<lparr>the_state := (the_state s)\<lparr>startTime := Some now\<rparr>,
                    fired := fired s @ [TimerStart]\<rparr>
             else s"
  let ?s2 = "?s1\<lparr>the_state := (the_state ?s1)\<lparr>letters :=
                  (if l \<noteq> [] then AList.update (r, c) l (letters (the_state ?s1))
                   else AList.delete (r, c) (letters (the_state ?s1)))\<rparr>\<rparr>"
  from assms obtain s3 where c: "checkCellWords pd now r c ?s2 = Inr s3" and s': "s' = scheduleSave s3"
    by (auto simp: onLetterInput_def Let_def andThen_Inr)
  have "the_grid ?s2 = the_grid s" by simp
  with checkCellWords_letters [OF c, of r' c'] s' show ?thesis
    by (simp add: scheduleSave_def)
qed

lemma letterKey_stored:
  assumes k: "key e = [ch]" "isLetterKey ch"
    and h: "handleKeyDown pd now e r c s = Inr s'"
    and cl: "getCell (the_grid s) r c = Some cl" "\<not> isBlack cl"
  shows "getLetter (the_grid s') r c = normalizeKey ch"
proof -
  from k(2) have "ch \<noteq> CHR '' ''" by (auto simp: isLetterKey_def)
  with k h obtain s1 where
    i: "inputLetter pd now r c (normalizeKey ch) s = Inr s1" and n: "nav moveToNextCell s1 = Inr s'"
    by (auto simp: handleKeyDown_def andThen_Inr)
  from nav_cursorMove [OF n moveToNextCell_cursorOnly]
  have "cells (the_grid s') = cells (the_grid s1)"
    by (simp add: cursorMove_def cursorOnly_def)
  then have "getLetter (the_grid s') r c = getLetter (the_grid s1) r c"
    by (simp add: getLetter_def getCell_def)
  also from onLetterInput_letters [OF i [unfolded inputLetter_def]]
  have "getLetter (the_grid s1) r c = getLetter (setLetter (the_grid s) r c (normalizeKey ch)) r c"
    by simp
  also from getLetter_setLetter_same [OF cl]
  have "\<dots> = normalizeKey ch" .
  finally show ?thesis .
qed


text \<open>C1, amended. Where the statistics item is readable and the solution grid has a row
  for every word cell (so that nothing raises), \<open>checkWord\<close> returns, and
  \<^item> a word already in the validated set is not evaluated again: the session is unchanged;
  \<^item> otherwise the word is in the validated set afterwards if and only if every one of
    its cells holds a non-empty text and that text is identical to the solution's text at
    the coordinate: \<open>checkWord\<close> normalises neither side;
  \<^item> a word with an empty cell, and any word that is not validated, leaves the session
    exactly as it was: nothing marks a word as wrong.
  Uppercasing and diacritic removal are applied to a letter key when it is pressed, and to
  nothing else: for every accepted letter key \<open>normalizeKey\<close> is a non-empty text of
  capital letters without diacritic (\<open>isNormalForm\<close>), and a letter key pressed in a
  playable cell leaves exactly that text in the cell. The solution's text is compared as
  it is stored.\<close>

theorem checkWord_compares_stored_text:
  assumes st: "statsReadable (storage s)"
      and cov: "solutionCovers pd (the_grid s)"
  shows "(\<exists>s'. checkWord pd now i s = Inr s'
           \<and> (i \<in> set (correctWords (the_state s)) \<longrightarrow> s' = s)
           \<and> (\<forall>w. i \<notin> set (correctWords (the_state s)) \<and> js_index (words (the_grid s)) (int i) = Some w \<longrightarrow>
                 (i \<in> set (correctWords (the_state s')) \<longleftrightarrow>
                    (\<forall>p\<in>set (wcells w). getLetter (the_grid s) (fst p) (snd p) \<noteq> []
                        \<and> solutionLetter pd p = Some (getLetter (the_grid s) (fst p) (snd p))))
                 \<and> ((\<exists>p\<in>set (wcells w). getLetter (the_grid s) (fst p) (snd p) = []) \<longrightarrow> s' = s)
                 \<and> (i \<notin> set (correctWords (the_state s')) \<longrightarrow> s' = s)))
       \<and> (\<forall>ch. isLetterKey ch \<longrightarrow>
              normalizeKey ch \<noteq> [] \<and> list_all isNormalForm (normalizeKey ch))
       \<and> (\<forall>e ch r c cl t. key e = [ch] \<and> isLetterKey ch
              \<and> getCell (the_grid s) r c = Some cl \<and> \<not> isBlack cl
              \<and> handleKeyDown pd now e r c s = Inr t
              \<longrightarrow> getLetter (the_grid t) r c = normalizeKey ch)"
  using checkWord_decides [OF st cov, of now i] normalizeKey_normal letterKey_stored
  by blast

theorem checkWord_compares_stored_text_witness:
  "(\<exists>s'. checkWord exPuzzle 9 0 filledSession = Inr s' \<and> 0 \<in> set (correctWords (the_state s')))
   \<and> checkWord exPuzzle 9 0 exSession = Inr exSession
   \<and> checkWord exPuzzle 9 0 lockedSession = Inr lockedSession
   \<and> list_all isNormalForm (normalizeKey (CHR 0xE9))
   \<and> (\<exists>t. handleKeyDown exPuzzle 2 (letterKey [CHR 0xE9]) 0 0 exSession = Inr t
          \<and> getLetter (the_grid t) 0 0 = ''E'')"
proof -
  have st: "statsReadable (storage filledSession)" "statsReadable (storage exSession)"
    "statsReadable (storage lockedSession)"
    by code_simp+
  have cov: "solutionCovers exPuzzle (the_grid filledSession)"
    "solutionCovers exPuzzle (the_grid exSession)" "solutionCovers exPuzzle (the_grid lockedSession)"
    by code_simp+
  have w: "js_index (words (the_grid filledSession)) (int 0)
             = Some \<lparr>wid = 0, wnumber = 1, wdirection = Across, wcells = [(0, 0), (0, 1)], wclue = ''first row''\<rparr>"
    "js_index (words (the_grid exSession)) (int 0)
             = Some \<lparr>wid = 0, wnumber = 1, wdirection = Across, wcells = [(0, 0), (0, 1)], wclue = ''first row''\<rparr>"
    by code_simp+
  have f: "0 \<notin> set (correctWords (the_state filledSession))"
    "getLetter (the_grid filledSession) 0 0 = ''A''" "getLetter (the_grid filledSession) 0 1 = ''B''"
    "solutionLetter exPuzzle (0, 0) = Some ''A''" "solutionLetter exPuzzle (0, 1) = Some ''B''"
    by code_simp+
  have e: "0 \<notin> set (correctWords (the_state exSession))" "getLetter (the_grid exSession) 0 0 = []"
    by code_simp+
  have l: "0 \<in> set (correctWords (the_state lockedSession))"
    by code_simp
  note A = checkWord_compares_stored_text [OF st(1) cov(1), of 9 0]
  note B = checkWord_compares_stored_text [OF st(2) cov(2), of 9 0]
  note C = checkWord_compares_stored_text [OF st(3) cov(3), of 9 0]
  from A [THEN conjunct1] w(1) f
  have 1: "\<exists>s'. checkWord exPuzzle 9 0 filledSession = Inr s' \<and> 0 \<in> set (correctWords (the_state s'))"
    by auto
  from B [THEN conjunct1] w(2) e
  have 2: "checkWord exPuzzle 9 0 exSession = Inr exSession"
    by auto
  from C [THEN conjunct1] l
  have 3: "checkWord exPuzzle 9 0 lockedSession = Inr lockedSession"
    by auto
  have k: "isLetterKey (CHR 0xE9)" by (simp add: isLetterKey_def)
  with B have 4: "list_all isNormalForm (normalizeKey (CHR 0xE9))" by blast
  have "\<not> isl (handleKeyDown exPuzzle 2 (letterKey [CHR 0xE9]) 0 0 exSession)" by code_simp
  then obtain t where t: "handleKeyDown exPuzzle 2 (letterKey [CHR 0xE9]) 0 0 exSession = Inr t"
    by (cases "handleKeyDown exPuzzle 2 (letterKey [CHR 0xE9]) 0 0 exSession") auto
  have cl: "getCell (the_grid exSession) 0 0 = Some \<lparr>input = Some \<lparr>val = [], readOnly = False\<rparr>, number = Some 1\<rparr>"
    "\<not> isBlack \<lparr>input = Some \<lparr>val = [], readOnly = False\<rparr>, number = Some 1\<rparr>"
    by code_simp+
  have nk: "normalizeKey (CHR 0xE9) = ''E''"
    by code_simp
  have "key (letterKey [CHR 0xE9]) = [CHR 0xE9]" by (simp add: letterKey_def)
  with checkWord_compares_stored_text [OF st(2) cov(2), of 2 0] k cl t
  have "getLetter (the_grid t) 0 0 = normalizeKey (CHR 0xE9)" by blast
  with t nk have 5: "\<exists>t. handleKeyDown exPuzzle 2 (letterKey [CHR 0xE9]) 0 0 exSession = Inr t
          \<and> getLetter (the_grid t) 0 0 = ''E''" by simp
  from 1 2 3 4 5 show ?thesis by blast
qed

text \<open>The claim as stated fails where the solution's text is not what the key handler
  stores. In \<open>accentPuzzle\<close> the solution of 1-Across is a small \<open>a\<close> and a capital E
  with acute accent. The keys \<open>a\<close> and e with acute accent leave \<open>A\<close> and \<open>E\<close> in the two
  cells; each equals the solution's letter after uppercasing and diacritic removal, yet
  the word is not validated, neither by the key events nor by a further \<open>checkWord\<close>.\<close>

theorem unnormalised_solution_never_validated:
  "letterAfter accentTyped 0 0 = Inr ''A'' \<and> letterAfter accentTyped 0 1 = Inr ''E''
   \<and> solutionLetter accentPuzzle (0, 0) = Some ''a''
   \<and> solutionLetter accentPuzzle (0, 1) = Some [CHR 0xC9]
   \<and> normalizeKey CHR ''a'' = ''A'' \<and> normalizeKey (CHR 0xC9) = ''E''
   \<and> validatedAfter accentTyped = Inr []
   \<and> validatedAfter (andThen accentTyped (checkWord accentPuzzle 9 0)) = Inr []"
  by code_simp

section \<open>Completion and the statistics\<close>




lemma doneStep_refl [simp]: "doneStep pd now s s"
  by (simp add: doneStep_def statsStep_def)
























end
